theory Spec2Isabelle
  imports Complex_Main
begin

section \<open>JavaScript numbers\<close>

text \<open>
  The routers compute on JavaScript numbers, that is IEEE-754 doubles. A finite double is
  modelled by the real number it denotes. Integers below \<open>2 ^ 53\<close> and the
  sums, differences and products of such integers that stay below \<open>2 ^ 53\<close> are exact in
  double arithmetic, so integer quantities (XP, thresholds, streaks, day numbers) are
  modelled as \<open>int\<close>. \<open>NaN\<close> and a missing value (\<open>undefined\<close>) are modelled by \<open>None\<close>.
\<close>

definition js_index :: "'a list \<Rightarrow> int \<Rightarrow> 'a option" where
  \<comment> \<open>\<open>xs[i]\<close>: \<open>undefined\<close> outside the array\<close>
  "js_index xs i = (if 0 \<le> i \<and> i < int (length xs) then Some (xs ! nat i) else None)"

definition js_or :: "real option \<Rightarrow> real \<Rightarrow> real" where
  \<comment> \<open>\<open>v || d\<close> on numbers: \<open>undefined\<close> and \<open>0\<close> are falsy\<close>
  "js_or v d = (case v of None \<Rightarrow> d | Some x \<Rightarrow> if x = 0 then d else x)"

definition jsround :: "real \<Rightarrow> int" where
  \<comment> \<open>\<open>Math.round\<close>: the nearest integer, a tie going towards plus infinity\<close>
  "jsround x = \<lfloor>x + 1 / 2\<rfloor>"

subsection \<open>Rounding to a double\<close>

text \<open>
  A division, a product or a square root whose exact result is not a double is rounded to
  the nearest double, a tie going to the even significand. A double other than zero is
  \<open>m * 2 ^ e\<close> with \<open>2 ^ 52 \<le> \<bar>m\<bar> < 2 ^ 53\<close>; \<open>ulpExp x\<close> is the exponent \<open>e\<close> of the
  doubles around \<open>x\<close>. Exponent overflow and subnormal numbers are left out: every value
  rounded below lies between \<open>2 ^ - 60\<close> and \<open>2 ^ 60\<close>.
\<close>

definition rne :: "real \<Rightarrow> int" where
  \<comment> \<open>the nearest integer, a tie going to the even one\<close>
  "rne y =
     (if y - of_int \<lfloor>y\<rfloor> < 1 / 2 then \<lfloor>y\<rfloor>
      else if 1 / 2 < y - of_int \<lfloor>y\<rfloor> then \<lfloor>y\<rfloor> + 1
      else if even \<lfloor>y\<rfloor> then \<lfloor>y\<rfloor> else \<lfloor>y\<rfloor> + 1)"

definition ulpExp :: "real \<Rightarrow> int" where
  "ulpExp x = \<lfloor>log 2 \<bar>x\<bar>\<rfloor> - 52"

definition fl :: "real \<Rightarrow> real" where
  "fl x = (if x = 0 then 0 else of_int (rne (x / 2 powi ulpExp x)) * 2 powi ulpExp x)"

definition fdiv :: "real \<Rightarrow> real \<Rightarrow> real" where
  \<comment> \<open>\<open>a / b\<close> for \<open>b \<noteq> 0\<close>\<close>
  "fdiv a b = fl (a / b)"

definition fmul :: "real \<Rightarrow> real \<Rightarrow> real" where
  "fmul a b = fl (a * b)"

definition fsqrt :: "real \<Rightarrow> real" where
  \<comment> \<open>\<open>Math.sqrt a\<close> for \<open>0 \<le> a\<close>\<close>
  "fsqrt a = fl (sqrt a)"

definition roundPercent :: "int \<Rightarrow> int \<Rightarrow> int" where
  \<comment> \<open>\<open>Math.round((a / b) * 100)\<close> for \<open>b \<noteq> 0\<close>\<close>
  "roundPercent a b = jsround (fmul (fdiv (of_int a) (of_int b)) 100)"

definition roundPercentExact :: "int \<Rightarrow> int \<Rightarrow> int" where
  \<comment> \<open>the percentage \<open>100 * a / b\<close> rounded without intermediate rounding\<close>
  "roundPercentExact a b = jsround (100 * of_int a / of_int b)"

definition percentTie :: "int \<Rightarrow> int \<Rightarrow> bool" where
  \<comment> \<open>\<open>100 * a / b\<close> lies half-way between two integers\<close>
  "percentTie a b = (2 * b dvd 200 * a + b)"

section \<open>XP reward calculator\<close>

text \<open>
  \<^verbatim>\<open>
  function calculateXPReward(difficulty: number): number {
    // Base XP is 10, scales with difficulty
    const baseXP = 10;
    const multiplier = [0.5, 0.75, 1, 1.5, 2][difficulty - 1] || 1;
    return Math.round(baseXP * multiplier * 10) / 10 * 10; // Round to nearest 10
  }
  \<close>
  The multipliers are dyadic and every intermediate value is a multiple of a quarter below
  \<open>2000\<close>, so each double operation is exact and plain real arithmetic is the double arithmetic.
\<close>

definition multiplierTable :: "real list" where
  "multiplierTable = [1 / 2, 3 / 4, 1, 3 / 2, 2]"

definition multiplierOf :: "int \<Rightarrow> real" where
  "multiplierOf difficulty = js_or (js_index multiplierTable (difficulty - 1)) 1"

definition calculateXPReward :: "int \<Rightarrow> real" where
  "calculateXPReward difficulty =
     (let baseXP = 10;
          multiplier = multiplierOf difficulty
      in of_int (jsround (baseXP * multiplier * 10)) / 10 * 10)"

section \<open>The database\<close>

text \<open>
  The helpers of the habits router read and write the Prisma tables below. A calendar day
  (\<open>startOfDay\<close> of a date) is its day number, so \<open>subDays d 1\<close> is \<open>d - 1\<close> and
  \<open>differenceInDays a b\<close> is \<open>a - b\<close>. The user table is a map from user ids to rows:
  \<open>findUnique\<close> is a lookup, and \<open>update\<close> of a missing row throws.
\<close>

datatype error = RecordNotFound | TypeError

record userRow =
  user_xp :: int
  currentStreak :: int
  longestStreak :: int

record habitRow =
  habit_id :: string
  habit_userId :: string
  isArchived :: bool

record habitCompletion =
  completion_habitId :: string
  completion_userId :: string
  completion_date :: int
  completion_completed :: bool

record achievement =
  achievement_id :: string
  achievement_name :: string
  criteriaType :: string
  criteriaThreshold :: int
  achievement_xpReward :: int

record userAchievement =
  ua_userId :: string
  ua_achievementId :: string

record activityLogRow =
  log_userId :: string
  log_action :: string
  log_entityType :: string
  log_entityId :: string
  log_xpEarned :: int
  log_achievementName :: string

record db =
  users :: "string \<rightharpoonup> userRow"
  habits :: "habitRow list"
  habitCompletions :: "habitCompletion list"
  achievements :: "achievement list"
  userAchievements :: "userAchievement list"
  activityLog :: "activityLogRow list"

section \<open>Streak calculator\<close>

subsection \<open>Per-habit streak\<close>

text \<open>
  \<open>calculateStreak\<close> fetches the completed records of one habit, newest first, at most 365,
  and walks them: a record on the cursor day counts and moves the cursor one day back; a
  record one day before the cursor counts too and moves the cursor to the day before that
  record; any other record ends the walk.
\<close>

definition completionsOfHabit :: "db \<Rightarrow> string \<Rightarrow> string \<Rightarrow> habitCompletion list" where
  "completionsOfHabit d habitId userId =
     take 365 (rev (sort_key completion_date
       (filter (\<lambda>c. completion_habitId c = habitId \<and> completion_userId c = userId
                     \<and> completion_completed c) (habitCompletions d))))"

fun streakLoop :: "int \<Rightarrow> int \<Rightarrow> habitCompletion list \<Rightarrow> int" where
  "streakLoop streak currentDate [] = streak"
| "streakLoop streak currentDate (completion # rest) =
     (if currentDate - completion_date completion = 0
      then streakLoop (streak + 1) (currentDate - 1) rest
      else if currentDate - completion_date completion = 1
      then streakLoop (streak + 1) (completion_date completion - 1) rest
      else streak)"

definition calculateStreak :: "db \<Rightarrow> string \<Rightarrow> string \<Rightarrow> int \<Rightarrow> int" where
  "calculateStreak d habitId userId today =
     (let completions = completionsOfHabit d habitId userId
      in if completions = [] then 0 else streakLoop 0 today completions)"

subsection \<open>User-level streak\<close>

text \<open>
  \<open>updateUserStreak\<close> returns at once when the user has no active habit. Otherwise it checks
  up to 365 days back from today whether the user has a completed record on the day; an
  empty day ends the walk unless it is the first day checked (\<open>i = 0\<close>). It then stores the
  streak and \<open>Math.max(streak, user?.longestStreak || 0)\<close>.
\<close>

definition dayCompletions :: "db \<Rightarrow> string \<Rightarrow> int \<Rightarrow> nat" where
  "dayCompletions d userId date =
     length (filter (\<lambda>c. completion_userId c = userId \<and> completion_date c = date
                          \<and> completion_completed c) (habitCompletions d))"

function userStreakLoop :: "db \<Rightarrow> string \<Rightarrow> nat \<Rightarrow> int \<Rightarrow> int \<Rightarrow> int" where
  "userStreakLoop d userId i streak currentDate =
     (if i < 365 then
        (if dayCompletions d userId currentDate > 0
         then userStreakLoop d userId (i + 1) (streak + 1) (currentDate - 1)
         else if i > 0 then streak
         else userStreakLoop d userId (i + 1) streak (currentDate - 1))
      else streak)"
  by pat_completeness auto
termination
  by (relation "measure (\<lambda>(d, userId, i, streak, currentDate). 365 - i)") auto

declare userStreakLoop.simps [simp del]

definition activeHabits :: "db \<Rightarrow> string \<Rightarrow> habitRow list" where
  "activeHabits d userId = filter (\<lambda>h. habit_userId h = userId \<and> \<not> isArchived h) (habits d)"

definition updateUserStreak :: "db \<Rightarrow> string \<Rightarrow> int \<Rightarrow> error + db" where
  "updateUserStreak d userId today =
     (if activeHabits d userId = [] then Inr d
      else
        (let streak = userStreakLoop d userId 0 0 today;
             previous = (case users d userId of None \<Rightarrow> 0 | Some u \<Rightarrow> longestStreak u)
         in case users d userId of
              None \<Rightarrow> Inl RecordNotFound
            | Some u \<Rightarrow>
                Inr (d\<lparr>users := (users d)(userId \<mapsto>
                       u\<lparr>currentStreak := streak,
                         longestStreak := max streak previous\<rparr>)\<rparr>)))"

text \<open>
  A sequence of recomputations: before each one the habits and the completion history may
  have changed in any way, and the day may have advanced.
\<close>

fun recomputeAll :: "db \<Rightarrow> string \<Rightarrow> (habitRow list \<times> habitCompletion list \<times> int) list
                     \<Rightarrow> error + db" where
  "recomputeAll d userId [] = Inr d"
| "recomputeAll d userId ((hs, cs, today) # rest) =
     (case updateUserStreak (d\<lparr>habits := hs, habitCompletions := cs\<rparr>) userId today of
        Inl e \<Rightarrow> Inl e
      | Inr d' \<Rightarrow> recomputeAll d' userId rest)"

section \<open>Achievement evaluator\<close>

text \<open>
  \<open>checkAchievements\<close> fetches the achievements the user has not unlocked, the user and the
  number of completed records, and for each fetched achievement whose criterion holds
  creates the unlock row, adds the reward to the user's XP and writes a log row. The user
  row is read once, before the loop. A throw of \<open>user.update\<close> leaves the rows written so
  far, so the result is the database together with the error, if any.
\<close>

definition unlockedIds :: "db \<Rightarrow> string \<Rightarrow> string list" where
  "unlockedIds d userId =
     map ua_achievementId (filter (\<lambda>r. ua_userId r = userId) (userAchievements d))"

definition lockedAchievements :: "db \<Rightarrow> string \<Rightarrow> achievement list" where
  "lockedAchievements d userId =
     filter (\<lambda>a. achievement_id a \<notin> set (unlockedIds d userId)) (achievements d)"

definition totalCompletions :: "db \<Rightarrow> string \<Rightarrow> int" where
  "totalCompletions d userId =
     int (length (filter (\<lambda>c. completion_userId c = userId \<and> completion_completed c)
                         (habitCompletions d)))"

definition shouldUnlock :: "userRow option \<Rightarrow> int \<Rightarrow> achievement \<Rightarrow> bool" where
  "shouldUnlock user totalCount a =
     (if criteriaType a = ''streak''
      then criteriaThreshold a \<le> (case user of None \<Rightarrow> 0 | Some u \<Rightarrow> currentStreak u)
      else if criteriaType a = ''total_completions''
      then criteriaThreshold a \<le> totalCount
      else False)"

definition unlockRow :: "string \<Rightarrow> achievement \<Rightarrow> userAchievement" where
  "unlockRow userId a = \<lparr>ua_userId = userId, ua_achievementId = achievement_id a\<rparr>"

definition unlockLog :: "string \<Rightarrow> achievement \<Rightarrow> activityLogRow" where
  "unlockLog userId a =
     \<lparr>log_userId = userId, log_action = ''achievement_unlocked'',
      log_entityType = ''achievement'', log_entityId = achievement_id a,
      log_xpEarned = achievement_xpReward a, log_achievementName = achievement_name a\<rparr>"

fun unlockLoop :: "db \<Rightarrow> string \<Rightarrow> userRow option \<Rightarrow> int \<Rightarrow> achievement list
                   \<Rightarrow> db \<times> error option" where
  "unlockLoop d userId user totalCount [] = (d, None)"
| "unlockLoop d userId user totalCount (a # rest) =
     (if shouldUnlock user totalCount a then
        (case users d userId of
           None \<Rightarrow>
             (d\<lparr>userAchievements := userAchievements d @ [unlockRow userId a]\<rparr>,
              Some RecordNotFound)
         | Some u \<Rightarrow>
             unlockLoop
               (d\<lparr>userAchievements := userAchievements d @ [unlockRow userId a],
                  users := (users d)(userId \<mapsto>
                    u\<lparr>user_xp := user_xp u + achievement_xpReward a\<rparr>),
                  activityLog := activityLog d @ [unlockLog userId a]\<rparr>)
               userId user totalCount rest)
      else unlockLoop d userId user totalCount rest)"

definition newlyUnlocked :: "db \<Rightarrow> string \<Rightarrow> achievement list" where
  \<comment> \<open>the achievements one run unlocks\<close>
  "newlyUnlocked d userId =
     filter (shouldUnlock (users d userId) (totalCompletions d userId))
            (lockedAchievements d userId)"

definition checkAchievements :: "db \<Rightarrow> string \<Rightarrow> db \<times> error option" where
  "checkAchievements d userId =
     unlockLoop d userId (users d userId) (totalCompletions d userId)
                (lockedAchievements d userId)"

subsection \<open>An example database\<close>

text \<open>
  User \<open>u\<close> has one active habit with completed records on days 10, 9 and 7 (stored in
  insertion order), and a stored streak of 2. The catalogue has two streak achievements, one
  on the number of completions and one of a criteria type the evaluator does not know.
\<close>

definition exampleCompletion :: "int \<Rightarrow> habitCompletion" where
  "exampleCompletion day =
     \<lparr>completion_habitId = ''h'', completion_userId = ''u'', completion_date = day,
      completion_completed = True\<rparr>"

definition exampleHabits :: "habitRow list" where
  "exampleHabits = [\<lparr>habit_id = ''h'', habit_userId = ''u'', isArchived = False\<rparr>]"

definition exampleAchievements :: "achievement list" where
  "exampleAchievements =
     [\<lparr>achievement_id = ''streak_2'', achievement_name = ''Two in a row'',
       criteriaType = ''streak'', criteriaThreshold = 2, achievement_xpReward = 50\<rparr>,
      \<lparr>achievement_id = ''night_owl'', achievement_name = ''Night owl'',
       criteriaType = ''time_of_day'', criteriaThreshold = 1, achievement_xpReward = 10\<rparr>,
      \<lparr>achievement_id = ''completions_3'', achievement_name = ''Three done'',
       criteriaType = ''total_completions'', criteriaThreshold = 3,
       achievement_xpReward = 100\<rparr>,
      \<lparr>achievement_id = ''streak_30'', achievement_name = ''A month'',
       criteriaType = ''streak'', criteriaThreshold = 30, achievement_xpReward = 500\<rparr>]"

definition exampleDb :: db where
  "exampleDb =
     \<lparr>users = [''u'' \<mapsto> \<lparr>user_xp = 0, currentStreak = 2, longestStreak = 5\<rparr>],
      habits = exampleHabits,
      habitCompletions = [exampleCompletion 7, exampleCompletion 10, exampleCompletion 9],
      achievements = exampleAchievements, userAchievements = [], activityLog = []\<rparr>"

section \<open>Rank resolver\<close>

text \<open>
  The gamification router keeps the thresholds in the constant \<open>RANKS\<close>; the features
  module has a local copy \<open>ranks\<close> with the same ids, names and thresholds. The functions
  take the table as a parameter. The \<open>icon\<close> of a rank, an emoji that no computation reads,
  is left out.
\<close>

record rank =
  rank_id :: string
  rank_name :: string
  minXP :: int
  rank_color :: string

definition RANKS :: "rank list" where
  "RANKS =
     [\<lparr>rank_id = ''unranked'', rank_name = ''Unranked'', minXP = 0, rank_color = ''#9CA3AF''\<rparr>,
      \<lparr>rank_id = ''bronze'', rank_name = ''Bronze'', minXP = 100, rank_color = ''#CD7F32''\<rparr>,
      \<lparr>rank_id = ''silver'', rank_name = ''Silver'', minXP = 300, rank_color = ''#C0C0C0''\<rparr>,
      \<lparr>rank_id = ''gold'', rank_name = ''Gold'', minXP = 600, rank_color = ''#FFD700''\<rparr>,
      \<lparr>rank_id = ''platinum'', rank_name = ''Platinum'', minXP = 1000,
       rank_color = ''#E5E4E2''\<rparr>,
      \<lparr>rank_id = ''diamond'', rank_name = ''Diamond'', minXP = 1500, rank_color = ''#B9F2FF''\<rparr>,
      \<lparr>rank_id = ''master'', rank_name = ''Master'', minXP = 2200, rank_color = ''#9B59B6''\<rparr>,
      \<lparr>rank_id = ''champion'', rank_name = ''Champion'', minXP = 3000,
       rank_color = ''#E74C3C''\<rparr>,
      \<lparr>rank_id = ''legend'', rank_name = ''Legend'', minXP = 4000, rank_color = ''#F39C12''\<rparr>]"

text \<open>
  \<^verbatim>\<open>
  function getRank(xp: number) {
    for (let i = RANKS.length - 1; i >= 0; i--) {
      if (xp >= RANKS[i].minXP) { return RANKS[i]; }
    }
    return RANKS[0];
  }
  \<close>
  \<open>getRankFrom table xp n\<close> is the loop with \<open>n\<close> entries left to check, the next one being
  \<open>table[n - 1]\<close>; \<open>None\<close> means that the loop ended without returning.
\<close>

fun getRankFrom :: "rank list \<Rightarrow> int \<Rightarrow> nat \<Rightarrow> rank option" where
  "getRankFrom table xp 0 = None"
| "getRankFrom table xp (Suc i) =
     (if minXP (table ! i) \<le> xp then Some (table ! i) else getRankFrom table xp i)"

definition getRank :: "rank list \<Rightarrow> int \<Rightarrow> rank option" where
  "getRank table xp =
     (case getRankFrom table xp (length table) of
        Some r \<Rightarrow> Some r
      | None \<Rightarrow> js_index table 0)"

fun findIndexFrom :: "('a \<Rightarrow> bool) \<Rightarrow> 'a list \<Rightarrow> int \<Rightarrow> int" where
  "findIndexFrom P [] i = - 1"
| "findIndexFrom P (x # xs) i = (if P x then i else findIndexFrom P xs (i + 1))"

definition findIndex :: "('a \<Rightarrow> bool) \<Rightarrow> 'a list \<Rightarrow> int" where
  \<comment> \<open>\<open>xs.findIndex(P)\<close>, and \<open>xs.indexOf(x)\<close> for \<open>P = (\<lambda>y. y = x)\<close>: \<open>-1\<close> when absent\<close>
  "findIndex P xs = findIndexFrom P xs 0"

record nextRankInfo =
  next_rank :: rank
  xpRequired :: int
  progress :: "int option"

text \<open>
  \<open>getNextRank\<close>: \<open>null\<close> is \<open>Inr None\<close>; reading a field of \<open>undefined\<close> throws a
  \<open>TypeError\<close>; \<open>progress\<close> is \<open>None\<close> when the division by a zero gap makes it
  \<open>NaN\<close> or infinite.
\<close>

definition getNextRank :: "rank list \<Rightarrow> int \<Rightarrow> error + nextRankInfo option" where
  "getNextRank table xp =
     (case getRank table xp of
        None \<Rightarrow> Inl TypeError
      | Some currentRank \<Rightarrow>
          (let currentIndex = findIndex (\<lambda>r. rank_id r = rank_id currentRank) table
           in if currentIndex = int (length table) - 1 then Inr None
              else
                (case js_index table (currentIndex + 1) of
                   None \<Rightarrow> Inl TypeError
                 | Some nextRank \<Rightarrow>
                     Inr (Some
                       \<lparr>next_rank = nextRank,
                        xpRequired = minXP nextRank - xp,
                        progress =
                          (if minXP nextRank - minXP currentRank = 0 then None
                           else Some (roundPercent (xp - minXP currentRank)
                                        (minXP nextRank - minXP currentRank)))\<rparr>))))"

record rankInfo =
  info_current :: "rank option"
  info_next :: "rank option"
  info_progress :: "int option"

text \<open>
  \<open>getRankInfo\<close> of the features module scans the table forwards and keeps the last entry
  whose threshold is reached.
\<close>

definition getRankInfo :: "rank list \<Rightarrow> int \<Rightarrow> rankInfo" where
  "getRankInfo ranks xp =
     (let currentRank =
            fold (\<lambda>rank cur. if minXP rank \<le> xp then Some rank else cur) ranks
                 (js_index ranks 0);
          currentIndex =
            (case currentRank of None \<Rightarrow> - 1 | Some c \<Rightarrow> findIndex (\<lambda>r. r = c) ranks);
          nextRank =
            (if currentIndex < int (length ranks) - 1 then js_index ranks (currentIndex + 1)
             else None)
      in \<lparr>info_current = currentRank,
          info_next = nextRank,
          info_progress =
            (case (currentRank, nextRank) of
               (Some c, Some n) \<Rightarrow>
                 (if minXP n - minXP c = 0 then None
                  else Some (roundPercent (xp - minXP c) (minXP n - minXP c)))
             | (None, Some n) \<Rightarrow> None
             | (_, None) \<Rightarrow> Some 100)\<rparr>)"

definition validTable :: "rank list \<Rightarrow> bool" where
  \<comment> \<open>a threshold table as the data model has it: not empty, starting at 0, strictly increasing\<close>
  "validTable table =
     (table \<noteq> [] \<and> minXP (hd table) = 0 \<and> sorted_wrt (<) (map minXP table))"

section \<open>Level calculator\<close>

text \<open>
  \<^verbatim>\<open>
  function calculateLevel(xp: number): number {
    return Math.floor(Math.sqrt(xp / 50)) + 1;
  }
  \<close>
  The same body is in the habits router, in the gamification router and in the features
  module, and the client store's \<open>addXP\<close> has it inline. For \<open>xp < 0\<close> the square root is
  \<open>NaN\<close> and so is the level.
\<close>

definition calculateLevel :: "int \<Rightarrow> int option" where
  \<comment> \<open>gamification router\<close>
  "calculateLevel xp =
     (if xp < 0 then None else Some (\<lfloor>fsqrt (fdiv (of_int xp) 50)\<rfloor> + 1))"

definition calculateLevel_habits :: "int \<Rightarrow> int option" where
  \<comment> \<open>habits router\<close>
  "calculateLevel_habits xp =
     (if xp < 0 then None else Some (\<lfloor>fsqrt (fdiv (of_int xp) 50)\<rfloor> + 1))"

definition calculateLevel_features :: "int \<Rightarrow> int option" where
  \<comment> \<open>features module\<close>
  "calculateLevel_features xp =
     (if xp < 0 then None else Some (\<lfloor>fsqrt (fdiv (of_int xp) 50)\<rfloor> + 1))"

record storeUser =
  store_xp :: int
  store_level :: "int option"
  store_currentStreak :: int
  store_longestStreak :: int

text \<open>
  \<^verbatim>\<open>
  addXP: (amount) => set((state) => {
    if (state.user) {
      state.user.xp += amount;
      state.user.level = Math.floor(Math.sqrt(state.user.xp / 50)) + 1;
    }
  })
  \<close>
\<close>

definition addXP :: "int \<Rightarrow> storeUser option \<Rightarrow> storeUser option" where
  "addXP amount user =
     (case user of
        None \<Rightarrow> None
      | Some u \<Rightarrow>
          Some (u\<lparr>store_xp := store_xp u + amount,
                  store_level :=
                    (if store_xp u + amount < 0 then None
                     else Some (\<lfloor>fsqrt (fdiv (of_int (store_xp u + amount)) 50)\<rfloor> + 1))\<rparr>))"

definition levelSpec :: "int \<Rightarrow> int" where
  \<comment> \<open>the contract \<open>level(xp) = floor(sqrt(xp / 50)) + 1\<close>, in exact arithmetic\<close>
  "levelSpec xp = \<lfloor>sqrt (of_int xp / 50)\<rfloor> + 1"

record levelProgress =
  lp_level :: int
  currentLevelXP :: int
  nextLevelXP :: int
  xpInLevel :: int
  xpForNextLevel :: int
  progressPercent :: int

text \<open>
  \<^verbatim>\<open>
  const level = calculateLevel(xp);
  const currentLevelXP = 50 * Math.pow(level - 1, 2);
  const nextLevelXP = 50 * Math.pow(level, 2);
  const xpInLevel = xp - currentLevelXP;
  const xpForNextLevel = nextLevelXP - currentLevelXP;
  const progressPercent = Math.min(100, Math.round((xpInLevel / xpForNextLevel) * 100));
  \<close>
  When the level is \<open>NaN\<close> so is every field, and the result is \<open>None\<close>. Otherwise the
  level is at least 1 and \<open>xpForNextLevel\<close> is not zero.
\<close>

definition calculateLevelProgress :: "int \<Rightarrow> levelProgress option" where
  "calculateLevelProgress xp =
     (case calculateLevel xp of
        None \<Rightarrow> None
      | Some level \<Rightarrow>
          (let currentLevelXP = 50 * (level - 1) ^ 2;
               nextLevelXP = 50 * level ^ 2;
               xpInLevel = xp - currentLevelXP;
               xpForNextLevel = nextLevelXP - currentLevelXP;
               progressPercent = min 100 (roundPercent xpInLevel xpForNextLevel)
           in Some \<lparr>lp_level = level, currentLevelXP = currentLevelXP,
                     nextLevelXP = nextLevelXP, xpInLevel = xpInLevel,
                     xpForNextLevel = xpForNextLevel,
                     progressPercent = progressPercent\<rparr>))"

section \<open>Properties of the XP reward calculator\<close>

lemma multiplierOf_in_range:
  "multiplierOf 1 = 1 / 2" "multiplierOf 2 = 3 / 4" "multiplierOf 3 = 1"
  "multiplierOf 4 = 3 / 2" "multiplierOf 5 = 2"
  by (simp_all add: multiplierOf_def js_index_def js_or_def multiplierTable_def)

lemma multiplierOf_out_of_range:
  "difficulty < 1 \<or> 5 < difficulty \<Longrightarrow> multiplierOf difficulty = 1"
  by (auto simp: multiplierOf_def js_index_def js_or_def multiplierTable_def)

text \<open>
  C1. The claim says that difficulty 3 is rewarded with 10 XP and that the reward is ten times
  the multiplier, rounded to a multiple of 10. The code multiplies by ten once more before
  rounding and never divides the factor away: the rewards for difficulties 1 to 5 are
  50, 75, 100, 150 and 200, so difficulty 3 yields 100 and difficulty 2 yields 75, which is not
  a multiple of 10.
\<close>

theorem calculateXPReward_table:
  "map calculateXPReward [1, 2, 3, 4, 5] = [50, 75, 100, 150, 200]
   \<and> calculateXPReward 3 \<noteq> 10"
  by (simp add: calculateXPReward_def multiplierOf_in_range jsround_def)

text \<open>
  C9. An integer difficulty outside 1..5 indexes outside the multiplier array, the lookup is
  \<open>undefined\<close>, and \<open>|| 1\<close> substitutes the multiplier of difficulty 3: the result is
  that of difficulty 3. The function has no failing branch.
\<close>

theorem calculateXPReward_fallback:
  assumes "difficulty < 1 \<or> 5 < difficulty"
  shows "multiplierOf difficulty = 1
         \<and> calculateXPReward difficulty = calculateXPReward 3"
  using assms
  by (simp add: calculateXPReward_def multiplierOf_out_of_range multiplierOf_in_range)

theorem calculateXPReward_fallback_witness:
  "((0::int) < 1 \<or> (5::int) < 0) \<and> multiplierOf 0 = 1
   \<and> calculateXPReward 0 = calculateXPReward 3
   \<and> calculateXPReward 7 = 100"
  using calculateXPReward_fallback [of 0] calculateXPReward_fallback [of 7]
  by (simp add: calculateXPReward_def multiplierOf_in_range jsround_def)

section \<open>Properties of the streak calculator\<close>

lemma completionsOfHabit_example:
  "completionsOfHabit exampleDb ''h'' ''u'' =
     [exampleCompletion 10, exampleCompletion 9, exampleCompletion 7]"
  by (simp add: completionsOfHabit_def exampleDb_def exampleCompletion_def)

lemma dayCompletions_example:
  "dayCompletions exampleDb ''u'' 10 = 1" "dayCompletions exampleDb ''u'' 9 = 1"
  "dayCompletions exampleDb ''u'' 8 = 0"
  by (simp_all add: dayCompletions_def exampleDb_def exampleCompletion_def)

lemma userStreakLoop_example: "userStreakLoop exampleDb ''u'' 0 0 10 = 2"
  by (simp add: userStreakLoop.simps [of exampleDb] dayCompletions_example)

lemma userStreakLoop_empty_day:
  "0 < i \<Longrightarrow> dayCompletions d userId currentDate = 0 \<Longrightarrow>
   userStreakLoop d userId i streak currentDate = streak"
  by (simp add: userStreakLoop.simps [of d userId i])

lemma userStreakLoop_empty_today:
  "dayCompletions d userId today = 0 \<Longrightarrow>
   userStreakLoop d userId 0 streak today = userStreakLoop d userId 1 streak (today - 1)"
  by (simp add: userStreakLoop.simps [of d userId 0])

lemma streakLoop_one_day_gap:
  "currentDate - completion_date c = 1 \<Longrightarrow>
   streakLoop streak currentDate (c # rest) =
     streakLoop (streak + 1) (completion_date c - 1) rest"
  by simp

text \<open>
  C2. The claim says that both walks tolerate a missing day only at the start, so that
  records today, yesterday and three days ago give streak 2. The user-level walk does:
  an empty day ends it unless \<open>i = 0\<close> (lemmas \<open>userStreakLoop_empty_day\<close>,
  \<open>userStreakLoop_empty_today\<close>). The per-habit walk accepts a record one day before the
  cursor at every step (lemma \<open>streakLoop_one_day_gap\<close>), so it skips the gap two days
  ago as well: with today = day 10 and records on days 10, 9 and 7 it returns 3, where the
  user-level walk over the same records returns 2.
\<close>

theorem calculateStreak_skips_inner_gap:
  "calculateStreak exampleDb ''h'' ''u'' 10 = 3
   \<and> userStreakLoop exampleDb ''u'' 0 0 10 = 2"
  by (simp add: calculateStreak_def completionsOfHabit_example userStreakLoop_example)
    (simp add: exampleCompletion_def)

lemma updateUserStreak_user:
  assumes "users d userId = Some u"
  shows "\<exists>d' u'. updateUserStreak d userId today = Inr d' \<and> users d' userId = Some u'
           \<and> longestStreak u \<le> longestStreak u'
           \<and> (activeHabits d userId \<noteq> [] \<longrightarrow>
                currentStreak u' = userStreakLoop d userId 0 0 today
                \<and> longestStreak u' = max (longestStreak u) (currentStreak u'))"
  using assms by (simp add: updateUserStreak_def Let_def max.commute)

lemma recomputeAll_user:
  "users d userId = Some u \<Longrightarrow>
   \<exists>d' u'. recomputeAll d userId events = Inr d' \<and> users d' userId = Some u'
       \<and> longestStreak u \<le> longestStreak u'"
proof (induction events arbitrary: d u)
  case Nil
  then show ?case by simp
next
  case (Cons ev events)
  obtain hs cs today where ev: "ev = (hs, cs, today)" by (cases ev) auto
  let ?d0 = "d\<lparr>habits := hs, habitCompletions := cs\<rparr>"
  have "users ?d0 userId = Some u" using Cons.prems by simp
  from updateUserStreak_user [OF this, of today]
  obtain d1 u1 where s: "updateUserStreak ?d0 userId today = Inr d1"
    "users d1 userId = Some u1" "longestStreak u \<le> longestStreak u1" by blast
  from Cons.IH [OF s(2)] obtain d' u' where
    "recomputeAll d1 userId events = Inr d'" "users d' userId = Some u'"
    "longestStreak u1 \<le> longestStreak u'" by blast
  with s ev show ?case by auto
qed

text \<open>
  C4. For a user that exists, a recomputation succeeds; when the user has an active habit
  it stores the maximum of the previous longest streak and the new current streak, and
  otherwise it stores nothing. So the longest streak never decreases, neither in one
  recomputation nor over a sequence of them with arbitrary histories in between.
\<close>

theorem longestStreak_never_decreases:
  assumes "users d userId = Some u"
  shows "(\<exists>d' u'. updateUserStreak d userId today = Inr d' \<and> users d' userId = Some u'
            \<and> (activeHabits d userId \<noteq> [] \<longrightarrow>
                 longestStreak u' = max (longestStreak u) (currentStreak u'))
            \<and> longestStreak u \<le> longestStreak u')
       \<and> (\<exists>d' u'. recomputeAll d userId events = Inr d' \<and> users d' userId = Some u'
            \<and> longestStreak u \<le> longestStreak u')"
  using updateUserStreak_user [OF assms, of today] recomputeAll_user [OF assms, of events]
  by blast

theorem longestStreak_never_decreases_witness:
  "users exampleDb ''u'' = Some \<lparr>user_xp = 0, currentStreak = 2, longestStreak = 5\<rparr>
   \<and> activeHabits exampleDb ''u'' \<noteq> []
   \<and> (\<exists>d' u'. updateUserStreak exampleDb ''u'' 10 = Inr d' \<and> users d' ''u'' = Some u'
          \<and> longestStreak u' = max 5 (currentStreak u') \<and> 5 \<le> longestStreak u')
   \<and> (\<exists>d' u'. recomputeAll exampleDb ''u'' [(exampleHabits, [], 11), ([], [], 12)] = Inr d'
          \<and> users d' ''u'' = Some u' \<and> 5 \<le> longestStreak u')"
proof -
  have u: "users exampleDb ''u'' = Some \<lparr>user_xp = 0, currentStreak = 2, longestStreak = 5\<rparr>"
    by (simp add: exampleDb_def)
  have h: "activeHabits exampleDb ''u'' \<noteq> []"
    by (simp add: activeHabits_def exampleDb_def exampleHabits_def)
  from longestStreak_never_decreases
         [OF u, of 10 "[(exampleHabits, [], 11), ([], [], 12)]"] u h
  show ?thesis by simp
qed

section \<open>Properties of the achievement evaluator\<close>

lemma unlockLoop_effect:
  "users d userId = Some u \<Longrightarrow>
   snd (unlockLoop d userId user n as) = None
   \<and> userAchievements (fst (unlockLoop d userId user n as)) =
       userAchievements d @ map (unlockRow userId) (filter (shouldUnlock user n) as)
   \<and> (\<exists>u1. users (fst (unlockLoop d userId user n as)) userId = Some u1
          \<and> currentStreak u1 = currentStreak u
          \<and> user_xp u1 = user_xp u
               + sum_list (map achievement_xpReward (filter (shouldUnlock user n) as)))
   \<and> habitCompletions (fst (unlockLoop d userId user n as)) = habitCompletions d
   \<and> achievements (fst (unlockLoop d userId user n as)) = achievements d"
proof (induction as arbitrary: d u)
  case Nil
  then show ?case by simp
next
  case (Cons a as)
  show ?case
  proof (cases "shouldUnlock user n a")
    case False
    with Cons.IH [OF Cons.prems] show ?thesis by simp
  next
    case True
    let ?u1 = "u\<lparr>user_xp := user_xp u + achievement_xpReward a\<rparr>"
    let ?d1 = "d\<lparr>userAchievements := userAchievements d @ [unlockRow userId a],
                  users := (users d)(userId \<mapsto> ?u1),
                  activityLog := activityLog d @ [unlockLog userId a]\<rparr>"
    have step: "unlockLoop d userId user n (a # as) = unlockLoop ?d1 userId user n as"
      using True Cons.prems by simp
    have "users ?d1 userId = Some ?u1" by simp
    from Cons.IH [OF this] show ?thesis
      unfolding step using True by clarsimp
  qed
qed

lemma unlockLoop_nothing:
  "filter (shouldUnlock user n) as = [] \<Longrightarrow> unlockLoop d userId user n as = (d, None)"
  by (induction as arbitrary: d) (auto split: if_splits)

lemma shouldUnlock_cong:
  "map_option currentStreak user = map_option currentStreak user' \<Longrightarrow>
   shouldUnlock user n = shouldUnlock user' n"
  by (cases user; cases user') (auto simp: shouldUnlock_def fun_eq_iff)

text \<open>
  C3. For a user that exists, a run of the evaluator unlocks exactly the locked achievements
  whose criterion holds, without error. A second run on the resulting database, whose
  unlocked ids are the previous ones and those of the first run and whose streak and
  completion count are unchanged, finds nothing to unlock and changes nothing.
\<close>

theorem checkAchievements_idempotent:
  assumes "users d userId = Some u"
  shows "snd (checkAchievements d userId) = None
     \<and> set (unlockedIds (fst (checkAchievements d userId)) userId) =
         set (unlockedIds d userId) \<union> achievement_id ` set (newlyUnlocked d userId)
     \<and> newlyUnlocked (fst (checkAchievements d userId)) userId = []
     \<and> checkAchievements (fst (checkAchievements d userId)) userId =
         (fst (checkAchievements d userId), None)"
proof -
  let ?user = "users d userId" and ?n = "totalCompletions d userId"
  let ?locked = "lockedAchievements d userId"
  let ?d1 = "fst (checkAchievements d userId)"
  note eff = unlockLoop_effect [OF assms, of ?user ?n ?locked,
      folded checkAchievements_def newlyUnlocked_def]
  from eff have err: "snd (checkAchievements d userId) = None" by blast
  from eff have rows: "userAchievements ?d1 =
      userAchievements d @ map (unlockRow userId) (newlyUnlocked d userId)" by blast
  from eff obtain u1 where u1: "users ?d1 userId = Some u1"
      "currentStreak u1 = currentStreak u" by blast
  from eff have same: "habitCompletions ?d1 = habitCompletions d"
      "achievements ?d1 = achievements d" by blast+
  have ids: "set (unlockedIds ?d1 userId) =
      set (unlockedIds d userId) \<union> achievement_id ` set (newlyUnlocked d userId)"
    by (auto simp: unlockedIds_def rows unlockRow_def)
  have crit: "shouldUnlock (users ?d1 userId) (totalCompletions ?d1 userId) =
      shouldUnlock ?user ?n"
    using u1 assms same by (simp add: totalCompletions_def shouldUnlock_cong)
  have "filter (shouldUnlock ?user ?n) (lockedAchievements ?d1 userId) = []"
    by (auto simp: filter_empty_conv lockedAchievements_def ids same newlyUnlocked_def)
  then have second: "newlyUnlocked ?d1 userId = []"
    by (simp add: newlyUnlocked_def crit)
  then have "checkAchievements ?d1 userId = (?d1, None)"
    unfolding checkAchievements_def [of ?d1] newlyUnlocked_def
    by (rule unlockLoop_nothing)
  with err ids second show ?thesis by blast
qed

theorem checkAchievements_idempotent_witness:
  "users exampleDb ''u'' = Some \<lparr>user_xp = 0, currentStreak = 2, longestStreak = 5\<rparr>
   \<and> map achievement_id (newlyUnlocked exampleDb ''u'') = [''streak_2'', ''completions_3'']
   \<and> newlyUnlocked (fst (checkAchievements exampleDb ''u'')) ''u'' = []
   \<and> checkAchievements (fst (checkAchievements exampleDb ''u'')) ''u'' =
       (fst (checkAchievements exampleDb ''u''), None)"
proof -
  have u: "users exampleDb ''u'' = Some \<lparr>user_xp = 0, currentStreak = 2, longestStreak = 5\<rparr>"
    by (simp add: exampleDb_def)
  have n: "map achievement_id (newlyUnlocked exampleDb ''u'') = [''streak_2'', ''completions_3'']"
    by (simp add: newlyUnlocked_def lockedAchievements_def unlockedIds_def
        totalCompletions_def shouldUnlock_def exampleDb_def exampleAchievements_def
        exampleCompletion_def)
  from checkAchievements_idempotent [OF u] u n show ?thesis by simp
qed

section \<open>Properties of the rounding to a double\<close>

text \<open>
  Rounding is monotone, leaves a number with a significand below \<open>2 ^ 53\<close> unchanged,
  and has a relative error of at most \<open>2 ^ - 53\<close>.
\<close>

lemma rne_of_int: "rne (of_int n) = n"
  by (simp add: rne_def)

lemma rne_bounds: "\<lfloor>y\<rfloor> \<le> rne y" "rne y \<le> \<lfloor>y\<rfloor> + 1"
  by (simp_all add: rne_def)

lemma rne_mono: "x \<le> y \<Longrightarrow> rne x \<le> rne y"
proof -
  assume xy: "x \<le> y"
  then have fg: "\<lfloor>x\<rfloor> \<le> \<lfloor>y\<rfloor>" by (rule floor_mono)
  show ?thesis
  proof (cases "\<lfloor>x\<rfloor> = \<lfloor>y\<rfloor>")
    case True
    with xy show ?thesis by (auto simp: rne_def)
  next
    case False
    with fg have "\<lfloor>x\<rfloor> + 1 \<le> \<lfloor>y\<rfloor>" by simp
    with rne_bounds(2) [of x] rne_bounds(1) [of y] show ?thesis by linarith
  qed
qed

lemma rne_close: "\<bar>of_int (rne y) - y\<bar> \<le> 1 / 2"
proof -
  have "of_int \<lfloor>y\<rfloor> \<le> y" "y < of_int \<lfloor>y\<rfloor> + 1" by linarith+
  then show ?thesis by (auto simp: rne_def)
qed

lemma two_powi_shift: "(2::real) powi (e + int n) = 2 ^ n * 2 powi e"
  using power_int_add [of "2::real" "int n" e] by (simp add: add.commute)

lemma two_powr_int: "(2::real) powr (of_int k) = 2 powi k"
  by (simp add: powr_real_of_int')

lemma floor_log2_iff:
  assumes "0 < x"
  shows "\<lfloor>log 2 x\<rfloor> = e + 52 \<longleftrightarrow> 2 ^ 52 * 2 powi e \<le> x \<and> x < 2 ^ 53 * 2 powi e"
proof -
  have "(e + 52) + 1 = e + int 53" by simp
  then have "(2::real) powr (of_int (e + 52) + 1) = 2 ^ 53 * 2 powi e"
    using two_powr_int [of "e + 52 + 1"] two_powi_shift [of e 53] by (simp add: add.commute)
  moreover have "(2::real) powr (of_int (e + 52)) = 2 ^ 52 * 2 powi e"
    using two_powr_int [of "e + 52"] two_powi_shift [of e 52] by (simp add: add.commute)
  ultimately show ?thesis
    using floor_log_eq_powr_iff [of x 2 "e + 52"] assms by simp
qed

lemma ulpExp_unique:
  assumes "0 < x" "2 ^ 52 * 2 powi e \<le> x" "x < 2 ^ 53 * 2 powi e"
  shows "ulpExp x = e"
  using assms floor_log2_iff [of x e] by (simp add: ulpExp_def)

lemma ulpExp_bounds:
  assumes "0 < x"
  shows "2 ^ 52 * 2 powi ulpExp x \<le> x" "x < 2 ^ 53 * 2 powi ulpExp x"
proof -
  have "\<lfloor>log 2 x\<rfloor> = ulpExp x + 52" using assms by (simp add: ulpExp_def)
  with floor_log2_iff [OF assms, of "ulpExp x"]
  show "2 ^ 52 * 2 powi ulpExp x \<le> x" "x < 2 ^ 53 * 2 powi ulpExp x" by blast+
qed

lemma fl_eval:
  assumes "0 < x" "2 ^ 52 * 2 powi e \<le> x" "x < 2 ^ 53 * 2 powi e"
  shows "fl x = of_int (rne (x / 2 powi e)) * 2 powi e"
  using assms ulpExp_unique [OF assms] by (simp add: fl_def)

lemma two_powi_pos: "0 < (2::real) powi e"
  by simp

lemma two_powi_mono: "a \<le> b \<Longrightarrow> (2::real) powi a \<le> 2 powi b"
  by (rule power_int_increasing) simp_all

lemma real_pow2_le: "(2::int) ^ n \<le> k \<Longrightarrow> (2::real) ^ n \<le> of_int k"
  using of_int_le_iff [of "2 ^ n" k, where ?'a = real] by simp

lemma real_le_pow2: "k \<le> (2::int) ^ n \<Longrightarrow> of_int k \<le> (2::real) ^ n"
  using of_int_le_iff [of k "2 ^ n", where ?'a = real] by simp

lemma real_less_pow2: "k < (2::int) ^ n \<Longrightarrow> of_int k < (2::real) ^ n"
  using of_int_less_iff [of k "2 ^ n", where ?'a = real] by simp

lemma fl_zero: "fl 0 = 0"
  by (simp add: fl_def)

lemma fl_pos_def: "0 < x \<Longrightarrow> fl x = of_int (rne (x / 2 powi ulpExp x)) * 2 powi ulpExp x"
  by (simp add: fl_def)

lemma fl_lower:
  assumes "0 < x"
  shows "2 ^ 52 * 2 powi ulpExp x \<le> fl x"
proof -
  let ?p = "(2::real) powi ulpExp x"
  have "2 ^ 52 \<le> x / ?p"
    using ulpExp_bounds(1) [OF assms] two_powi_pos [of "ulpExp x"]
    by (simp add: pos_le_divide_eq)
  then have "rne (of_int (2 ^ 52)) \<le> rne (x / ?p)" by (intro rne_mono) simp
  then have "(2::int) ^ 52 \<le> rne (x / ?p)" by (simp only: rne_of_int)
  then have "(2::real) ^ 52 \<le> of_int (rne (x / ?p))" by (rule real_pow2_le)
  then have "2 ^ 52 * ?p \<le> of_int (rne (x / ?p)) * ?p"
    using two_powi_pos [of "ulpExp x"] by (simp only: mult_le_cancel_right_pos)
  then show ?thesis using assms by (simp only: fl_pos_def)
qed

lemma fl_upper:
  assumes "0 < x"
  shows "fl x \<le> 2 ^ 53 * 2 powi ulpExp x"
proof -
  let ?p = "(2::real) powi ulpExp x"
  have "x / ?p \<le> 2 ^ 53"
    using ulpExp_bounds(2) [OF assms] two_powi_pos [of "ulpExp x"]
    by (simp add: pos_divide_le_eq)
  then have "rne (x / ?p) \<le> rne (of_int (2 ^ 53))" by (intro rne_mono) simp
  then have "rne (x / ?p) \<le> (2::int) ^ 53" by (simp only: rne_of_int)
  then have "of_int (rne (x / ?p)) \<le> (2::real) ^ 53" by (rule real_le_pow2)
  then have "of_int (rne (x / ?p)) * ?p \<le> 2 ^ 53 * ?p"
    using two_powi_pos [of "ulpExp x"] by (simp only: mult_le_cancel_right_pos)
  then show ?thesis using assms by (simp only: fl_pos_def)
qed

lemma ulpExp_mono:
  assumes "0 < x" "x \<le> y"
  shows "ulpExp x \<le> ulpExp y"
proof -
  have "log 2 x \<le> log 2 y" using assms by simp
  then have "\<lfloor>log 2 x\<rfloor> \<le> \<lfloor>log 2 y\<rfloor>" by (rule floor_mono)
  then show ?thesis using assms by (simp add: ulpExp_def)
qed

lemma fl_nonneg: "0 \<le> x \<Longrightarrow> 0 \<le> fl x"
proof (cases "x = 0")
  case True
  then show ?thesis by (simp add: fl_zero)
next
  case False
  assume "0 \<le> x"
  with False have "0 < x" by simp
  have "0 \<le> 2 ^ 52 * (2::real) powi ulpExp x"
    using two_powi_pos [of "ulpExp x"] by simp
  with fl_lower [OF \<open>0 < x\<close>] show ?thesis by linarith
qed

lemma fl_mono:
  assumes "0 \<le> x" "x \<le> y"
  shows "fl x \<le> fl y"
proof (cases "x = 0")
  case True
  with assms fl_nonneg [of y] show ?thesis by (simp add: fl_zero)
next
  case False
  with assms have x: "0 < x" and y: "0 < y" by simp_all
  show ?thesis
  proof (cases "ulpExp x = ulpExp y")
    case True
    let ?p = "(2::real) powi ulpExp y"
    have "x / ?p \<le> y / ?p"
      using assms(2) two_powi_pos [of "ulpExp y"] by (simp add: divide_right_mono)
    then have "rne (x / ?p) \<le> rne (y / ?p)" by (rule rne_mono)
    then have "of_int (rne (x / ?p)) * ?p \<le> of_int (rne (y / ?p)) * ?p"
      using two_powi_pos [of "ulpExp y"] by (simp add: mult_le_cancel_right_pos)
    then show ?thesis using x y True by (simp add: fl_pos_def)
  next
    case False
    with ulpExp_mono [OF x assms(2)] have "ulpExp x + 1 \<le> ulpExp y" by simp
    then have "(2::real) powi (ulpExp x + int 1) \<le> 2 powi ulpExp y"
      by (intro two_powi_mono) simp
    then have "2 * 2 powi ulpExp x \<le> (2::real) powi ulpExp y"
      by (simp only: two_powi_shift) simp
    then have "2 ^ 53 * 2 powi ulpExp x \<le> 2 ^ 52 * (2::real) powi ulpExp y" by simp
    with fl_upper [OF x] fl_lower [OF y] show ?thesis by linarith
  qed
qed

lemma fl_repr:
  assumes "0 < m" "m < 2 ^ 53"
  shows "fl (of_int m * 2 powi k) = of_int m * 2 powi k"
proof -
  define x where "x = of_int m * (2::real) powi k"
  define e where "e = ulpExp x"
  define p where "p = (2::real) powi e"
  have x: "0 < x" using assms(1) two_powi_pos [of k] by (simp add: x_def)
  have p: "0 < p" unfolding p_def by (rule two_powi_pos)
  have ke: "e \<le> k"
  proof (rule ccontr)
    assume "\<not> e \<le> k"
    then have "k + 1 \<le> e" by simp
    then have "(2::real) powi (k + int 1) \<le> 2 powi e" by (intro two_powi_mono) simp
    then have "2 * (2::real) powi k \<le> p" by (simp only: two_powi_shift p_def) simp
    then have a: "2 ^ 53 * (2::real) powi k \<le> 2 ^ 52 * p" by simp
    have "real_of_int m < 2 ^ 53" using assms(2) by (rule real_less_pow2)
    then have "x < 2 ^ 53 * 2 powi k"
      unfolding x_def using two_powi_pos [of k] by (simp only: mult_less_cancel_right_pos)
    with a ulpExp_bounds(1) [OF x] show False by (simp add: e_def [symmetric] p_def [symmetric])
  qed
  define d where "d = nat (k - e)"
  have "k = e + int d" using ke by (simp add: d_def)
  then have "(2::real) powi k = 2 ^ d * p"
    using two_powi_shift [of e d] by (simp add: p_def)
  then have xp: "x = of_int (m * 2 ^ d) * p" by (simp add: x_def)
  then have q: "x / p = of_int (m * 2 ^ d)" using p by simp
  have "fl x = of_int (rne (x / p)) * p"
    using fl_pos_def [OF x] by (simp only: e_def p_def)
  also have "\<dots> = of_int (m * 2 ^ d) * p" by (simp only: q rne_of_int)
  also have "\<dots> = x" by (simp only: xp)
  finally show ?thesis by (simp only: x_def)
qed

lemma fl_int: "0 \<le> n \<Longrightarrow> n < 2 ^ 53 \<Longrightarrow> fl (of_int n) = of_int n"
  using fl_repr [of n 0] by (cases "n = 0") (simp_all add: fl_zero)

lemma fl_error:
  assumes "0 \<le> x"
  shows "\<bar>fl x - x\<bar> \<le> x / 2 ^ 53"
proof (cases "x = 0")
  case True
  then show ?thesis by (simp add: fl_zero)
next
  case False
  with assms have x: "0 < x" by simp
  let ?p = "(2::real) powi ulpExp x"
  have p: "0 < ?p" by (rule two_powi_pos)
  have "fl x - x = (of_int (rne (x / ?p)) - x / ?p) * ?p"
    using p x by (simp add: fl_pos_def left_diff_distrib)
  then have "\<bar>fl x - x\<bar> = \<bar>of_int (rne (x / ?p)) - x / ?p\<bar> * ?p"
    using p by (simp add: abs_mult)
  also have "\<dots> \<le> 1 / 2 * ?p"
    using rne_close [of "x / ?p"] p by (simp only: mult_le_cancel_right_pos)
  also have "\<dots> \<le> x / 2 ^ 53"
    using ulpExp_bounds(1) [OF x] by simp
  finally show ?thesis .
qed

lemma rne_minus: "rne (- y) = - rne y"
proof (cases "y = of_int \<lfloor>y\<rfloor>")
  case True
  then obtain n where "y = of_int n" ..
  then have "rne (- y) = rne (of_int (- n))" "rne y = rne (of_int n)" by simp_all
  then show ?thesis by (simp only: rne_of_int)
next
  case False
  define f where "f = \<lfloor>y\<rfloor>"
  have b: "of_int f < y" "y < of_int f + 1" using False unfolding f_def by linarith+
  then have "\<lfloor>- y\<rfloor> = - f - 1" by (simp add: floor_eq_iff)
  with b show ?thesis
    unfolding rne_def f_def [symmetric] by auto
qed

lemma fl_minus: "fl (- x) = - fl x"
  by (simp add: fl_def ulpExp_def rne_minus)

lemma fl_mono_all:
  assumes "x \<le> y"
  shows "fl x \<le> fl y"
proof -
  consider "0 \<le> x" | "x < 0" "0 \<le> y" | "y < 0" by linarith
  then show ?thesis
  proof cases
    case 1
    then show ?thesis using assms by (rule fl_mono)
  next
    case 2
    then have "0 \<le> fl (- x)" "0 \<le> fl y" by (simp_all add: fl_nonneg)
    then show ?thesis by (simp add: fl_minus)
  next
    case 3
    with assms have "fl (- y) \<le> fl (- x)" by (intro fl_mono) simp_all
    then show ?thesis by (simp add: fl_minus)
  qed
qed

section \<open>Properties of the rounded percentage\<close>

text \<open>
  \<open>Math.round((a / b) * 100)\<close> rounds twice before \<open>Math.round\<close>. The double it passes
  to \<open>Math.round\<close> is within \<open>200 / 2 ^ 53\<close> of \<open>100 * a / b\<close>, so the result is
  the exact percentage rounded half up unless that percentage lies half-way between two
  integers; there the double may fall just below the half, as for \<open>a = 29\<close>, \<open>b = 200\<close>.
\<close>

lemma jsround_mono: "x \<le> y \<Longrightarrow> jsround x \<le> jsround y"
  by (simp add: jsround_def floor_mono)

lemma roundPercent_zero: "roundPercent 0 b = 0"
  by (simp add: roundPercent_def fmul_def fdiv_def fl_zero jsround_def)

lemma roundPercentExact_div:
  assumes "0 < b"
  shows "roundPercentExact a b = (200 * a + b) div (2 * b)"
proof -
  have "100 * real_of_int a / of_int b + 1 / 2 = of_int (200 * a + b) / of_int (2 * b)"
    using assms by (simp add: field_simps)
  then show ?thesis
    by (simp only: roundPercentExact_def jsround_def floor_divide_of_int_eq)
qed

lemma roundPercent_error:
  assumes "0 \<le> a" "a \<le> b" "0 < b"
  shows "\<bar>fmul (fdiv (of_int a) (of_int b)) 100 - 100 * of_int a / of_int b\<bar> \<le> 200 / 2 ^ 53"
proof -
  define v where "v = real_of_int a / of_int b"
  define q where "q = fl v"
  have v: "0 \<le> v" "v \<le> 1" using assms by (simp_all add: v_def)
  have q0: "0 \<le> q" unfolding q_def using v(1) by (rule fl_nonneg)
  have "q \<le> fl (of_int 1)" unfolding q_def using v by (intro fl_mono) simp_all
  also have "fl (of_int 1) = of_int 1" by (intro fl_int) simp_all
  finally have q1: "q \<le> 1" by simp
  have e1: "\<bar>q - v\<bar> \<le> v / 2 ^ 53" unfolding q_def using v(1) by (rule fl_error)
  have e2: "\<bar>fl (q * 100) - q * 100\<bar> \<le> q * 100 / 2 ^ 53"
    using q0 by (intro fl_error) simp
  define c where "c = fl (q * 100)"
  from e1 have b1: "q - v \<le> v / 2 ^ 53" "v - q \<le> v / 2 ^ 53" by linarith+
  from e2 have b2: "c - q * 100 \<le> q * 100 / 2 ^ 53" "q * 100 - c \<le> q * 100 / 2 ^ 53"
    unfolding c_def by linarith+
  from b1 b2 q1 v(2) have "c - 100 * v \<le> 200 / 2 ^ 53" "100 * v - c \<le> 200 / 2 ^ 53"
    by simp_all
  then have "\<bar>c - 100 * v\<bar> \<le> 200 / 2 ^ 53" by linarith
  then show ?thesis by (simp add: fmul_def fdiv_def q_def v_def c_def)
qed

lemma roundPercent_no_tie:
  assumes "0 \<le> a" "a \<le> b" "0 < b" "b < 2 ^ 40" "\<not> percentTie a b"
  shows "roundPercent a b = roundPercentExact a b"
proof -
  define c where "c = fmul (fdiv (of_int a) (of_int b)) 100"
  define N where "N = 200 * a + b"
  define D where "D = 2 * b"
  define n where "n = N div D"
  define r where "r = N mod D"
  have D: "0 < D" "D < 2 ^ 41" using assms by (simp_all add: D_def)
  have r: "1 \<le> r" "r \<le> D - 1"
  proof -
    have "r \<noteq> 0" using assms(5) by (simp add: percentTie_def r_def N_def D_def dvd_eq_mod_eq_0)
    moreover have "0 \<le> r" "r < D" using D by (simp_all add: r_def)
    ultimately show "1 \<le> r" "r \<le> D - 1" by simp_all
  qed
  have split: "real_of_int N / of_int D = of_int n + of_int r / of_int D"
    unfolding n_def r_def by (rule of_int_div_aux)
  have v: "100 * real_of_int a / of_int b + 1 / 2 = of_int N / of_int D"
    using assms(3) by (simp add: N_def D_def field_simps)
  have Dr: "real_of_int D < 2 ^ 41" using D(2) by (rule real_less_pow2)
  have D0: "0 < real_of_int D" using D(1) by simp
  have "1 / real_of_int D \<le> of_int r / of_int D"
    using r(1) D0 by (simp add: divide_right_mono)
  moreover have "real_of_int r / of_int D \<le> (of_int D - 1) / of_int D"
    using r(2) D0 by (intro divide_right_mono) simp_all
  moreover have "(real_of_int D - 1) / of_int D = 1 - 1 / of_int D"
    using D0 by (simp add: field_simps)
  moreover have "200 / 2 ^ 53 < 1 / real_of_int D"
  proof -
    have "1 / (2::real) ^ 41 < 1 / real_of_int D"
      using Dr D0 by (simp add: frac_less2)
    then show ?thesis by simp
  qed
  ultimately have gap: "200 / 2 ^ 53 < real_of_int r / of_int D"
      "real_of_int r / of_int D < 1 - 200 / 2 ^ 53" by linarith+
  have err: "\<bar>c - 100 * of_int a / of_int b\<bar> \<le> 200 / 2 ^ 53"
    unfolding c_def using assms(1-3) by (rule roundPercent_error)
  from err v split gap have "of_int n \<le> c + 1 / 2" "c + 1 / 2 < of_int n + 1"
    by linarith+
  then have "jsround c = n" by (simp add: jsround_def floor_eq_iff)
  then show ?thesis
    using roundPercentExact_div [OF assms(3), of a]
    by (simp add: roundPercent_def c_def n_def N_def D_def)
qed

lemma roundPercent_tie:
  assumes "0 \<le> a" "a \<le> b" "0 < b" "percentTie a b"
  shows "roundPercent a b = roundPercentExact a b
         \<or> roundPercent a b = roundPercentExact a b - 1"
proof -
  define c where "c = fmul (fdiv (of_int a) (of_int b)) 100"
  define n where "n = (200 * a + b) div (2 * b)"
  have "2 * b dvd 200 * a + b" using assms(4) by (simp add: percentTie_def)
  then have "200 * a + b = n * (2 * b)" by (simp add: n_def)
  then have "real_of_int (200 * a + b) = of_int (n * (2 * b))" by (simp only:)
  then have v: "100 * real_of_int a / of_int b + 1 / 2 = of_int n"
    using assms(3) by (simp add: field_simps)
  have err: "\<bar>c - 100 * of_int a / of_int b\<bar> \<le> 200 / 2 ^ 53"
    unfolding c_def using assms(1-3) by (rule roundPercent_error)
  have small: "(200::real) / 2 ^ 53 < 1 / 2" by simp
  define w where "w = 100 * real_of_int a / of_int b"
  from err v small have "real_of_int n - 1 \<le> c + 1 / 2" "c + 1 / 2 < of_int n + 1"
    unfolding w_def [symmetric] by linarith+
  then have "of_int (n - 1) \<le> c + 1 / 2" "c + 1 / 2 < of_int n + 1" by simp_all
  then have "n - 1 \<le> \<lfloor>c + 1 / 2\<rfloor>" "\<lfloor>c + 1 / 2\<rfloor> < n + 1"
    by (simp_all only: le_floor_iff floor_less_iff)
  then have "\<lfloor>c + 1 / 2\<rfloor> = n \<or> \<lfloor>c + 1 / 2\<rfloor> = n - 1" by linarith
  then show ?thesis
    using roundPercentExact_div [OF assms(3), of a]
    by (simp add: roundPercent_def c_def [symmetric] n_def jsround_def)
qed

lemma roundPercent_29_200: "roundPercent 29 200 = 14"
proof -
  have q: "fl (29 / 200) = 5224175567749775 * 2 powi (- 55)"
    by (subst fl_eval [of _ "- 55"]) (simp_all add: power_int_minus rne_def)
  have c: "fl (5224175567749775 * 2 powi (- 55) * 100) = 8162774324609023 * 2 powi (- 49)"
    by (subst fl_eval [of _ "- 49"]) (simp_all add: power_int_minus rne_def)
  have "roundPercent 29 200 = jsround (fl (fl (29 / 200) * 100))"
    by (simp add: roundPercent_def fmul_def fdiv_def)
  also have "\<dots> = jsround (8162774324609023 * 2 powi (- 49))"
    by (simp only: q c)
  also have "\<dots> = 14"
    by (simp add: power_int_minus jsround_def)
  finally show ?thesis .
qed

lemma roundPercent_mono_all:
  assumes "a \<le> a'" "0 < b"
  shows "roundPercent a b \<le> roundPercent a' b"
proof -
  have "real_of_int a / of_int b \<le> of_int a' / of_int b"
    using assms by (simp add: divide_right_mono)
  then have "fl (real_of_int a / of_int b) \<le> fl (of_int a' / of_int b)"
    by (rule fl_mono_all)
  then have "fl (fl (real_of_int a / of_int b) * 100) \<le> fl (fl (of_int a' / of_int b) * 100)"
    by (intro fl_mono_all) simp
  then show ?thesis by (simp add: roundPercent_def fmul_def fdiv_def jsround_mono)
qed

section \<open>Properties of the rank resolver\<close>

lemma getRankFrom_Some:
  "getRankFrom table xp n = Some r \<Longrightarrow>
   \<exists>i<n. r = table ! i \<and> minXP (table ! i) \<le> xp
         \<and> (\<forall>j. i < j \<and> j < n \<longrightarrow> xp < minXP (table ! j))"
proof (induction n)
  case 0
  then show ?case by simp
next
  case (Suc n)
  show ?case
  proof (cases "minXP (table ! n) \<le> xp")
    case True
    with Suc.prems have "r = table ! n" by simp
    with True show ?thesis by auto
  next
    case False
    with Suc.prems have "getRankFrom table xp n = Some r" by simp
    from Suc.IH [OF this] obtain i where i: "i < n" "r = table ! i"
      "minXP (table ! i) \<le> xp" "\<forall>j. i < j \<and> j < n \<longrightarrow> xp < minXP (table ! j)" by blast
    have "\<forall>j. i < j \<and> j < Suc n \<longrightarrow> xp < minXP (table ! j)"
      using i(4) False by (auto simp: less_Suc_eq)
    with i show ?thesis by (intro exI [of _ i]) simp
  qed
qed

lemma getRankFrom_None:
  "getRankFrom table xp n = None \<Longrightarrow> j < n \<Longrightarrow> xp < minXP (table ! j)"
  by (induction n) (auto simp: less_Suc_eq split: if_splits)

lemma getRank_index:
  assumes "table \<noteq> []" "minXP (table ! 0) \<le> xp"
  shows "\<exists>i<length table. getRank table xp = Some (table ! i) \<and> minXP (table ! i) \<le> xp
           \<and> (\<forall>j. i < j \<and> j < length table \<longrightarrow> xp < minXP (table ! j))"
proof (cases "getRankFrom table xp (length table)")
  case None
  from assms(1) have "0 < length table" by simp
  from getRankFrom_None [OF None this] assms(2) show ?thesis by simp
next
  case (Some r)
  from getRankFrom_Some [OF Some] Some show ?thesis by (auto simp: getRank_def)
qed

lemma scan_index:
  assumes "minXP (table ! 0) \<le> xp"
  shows "0 < n \<Longrightarrow> n \<le> length table \<Longrightarrow>
    \<exists>i<n. fold (\<lambda>rank cur. if minXP rank \<le> xp then Some rank else cur) (take n table)
             (Some (table ! 0)) = Some (table ! i)
          \<and> minXP (table ! i) \<le> xp
          \<and> (\<forall>j. i < j \<and> j < n \<longrightarrow> xp < minXP (table ! j))"
proof (induction n)
  case 0
  then show ?case by simp
next
  case (Suc n)
  let ?f = "\<lambda>rank cur. if minXP rank \<le> xp then Some rank else cur"
  from Suc.prems have n: "n < length table" by simp
  then have tk: "take (Suc n) table = take n table @ [table ! n]"
    by (rule take_Suc_conv_app_nth)
  show ?case
  proof (cases "minXP (table ! n) \<le> xp")
    case True
    then show ?thesis by (intro exI [of _ n]) (simp add: tk)
  next
    case False
    with assms have "n \<noteq> 0" by (cases n) auto
    with Suc.IH n obtain i where i: "i < n"
      "fold ?f (take n table) (Some (table ! 0)) = Some (table ! i)"
      "minXP (table ! i) \<le> xp" "\<forall>j. i < j \<and> j < n \<longrightarrow> xp < minXP (table ! j)" by auto
    have "\<forall>j. i < j \<and> j < Suc n \<longrightarrow> xp < minXP (table ! j)"
      using i(4) False by (auto simp: less_Suc_eq)
    with i False show ?thesis by (intro exI [of _ i]) (simp add: tk)
  qed
qed

lemma getRankInfo_index:
  assumes "table \<noteq> []" "minXP (table ! 0) \<le> xp"
  shows "\<exists>i<length table. info_current (getRankInfo table xp) = Some (table ! i)
           \<and> minXP (table ! i) \<le> xp
           \<and> (\<forall>j. i < j \<and> j < length table \<longrightarrow> xp < minXP (table ! j))"
proof -
  from assms(1) have "0 < length table" by simp
  from scan_index [OF assms(2) this] assms(1) show ?thesis
    by (simp add: getRankInfo_def Let_def js_index_def)
qed

lemma validTable_nth:
  assumes "validTable table"
  shows "table \<noteq> []" "minXP (table ! 0) = 0"
    "i < j \<Longrightarrow> j < length table \<Longrightarrow> minXP (table ! i) < minXP (table ! j)"
proof -
  from assms show ne: "table \<noteq> []" by (simp add: validTable_def)
  with assms show "minXP (table ! 0) = 0" by (simp add: validTable_def hd_conv_nth)
  assume "i < j" "j < length table"
  with assms show "minXP (table ! i) < minXP (table ! j)"
    by (simp add: validTable_def sorted_wrt_iff_nth_less)
qed

lemma validTable_RANKS: "validTable RANKS"
  by (simp add: validTable_def RANKS_def)

text \<open>
  C5. On a valid threshold table and for \<open>xp \<ge> 0\<close>, the backward loop of \<open>getRank\<close> and
  the forward scan of \<open>getRankInfo\<close> both return the entry with the highest index whose
  threshold is at most \<open>xp\<close>, a threshold equal to \<open>xp\<close> included; at \<open>xp = 0\<close> this is
  the first entry.
\<close>

theorem getRank_highest_reached:
  assumes "validTable table" "0 \<le> xp"
  shows "(\<exists>i<length table. getRank table xp = Some (table ! i)
            \<and> info_current (getRankInfo table xp) = Some (table ! i)
            \<and> minXP (table ! i) \<le> xp
            \<and> (\<forall>j. i < j \<and> j < length table \<longrightarrow> xp < minXP (table ! j)))
       \<and> getRank table 0 = Some (table ! 0)
       \<and> info_current (getRankInfo table 0) = Some (table ! 0)"
proof -
  note v = validTable_nth [OF assms(1)]
  have first: "minXP (table ! 0) \<le> xp" "minXP (table ! 0) \<le> 0" using v(2) assms(2) by simp_all
  have same: "i = i'"
    if "i < length table" "minXP (table ! i) \<le> y"
       "\<forall>j. i < j \<and> j < length table \<longrightarrow> y < minXP (table ! j)"
       "i' < length table" "minXP (table ! i') \<le> y"
       "\<forall>j. i' < j \<and> j < length table \<longrightarrow> y < minXP (table ! j)" for i i' y
    using that by (metis linorder_neqE_nat not_less)
  from getRank_index [OF v(1) first(1)] obtain i where i: "i < length table"
    "getRank table xp = Some (table ! i)" "minXP (table ! i) \<le> xp"
    "\<forall>j. i < j \<and> j < length table \<longrightarrow> xp < minXP (table ! j)" by blast
  from getRankInfo_index [OF v(1) first(1)] obtain i' where i': "i' < length table"
    "info_current (getRankInfo table xp) = Some (table ! i')" "minXP (table ! i') \<le> xp"
    "\<forall>j. i' < j \<and> j < length table \<longrightarrow> xp < minXP (table ! j)" by blast
  from same [OF i(1,3,4) i'(1,3,4)] i i' have general:
    "\<exists>i<length table. getRank table xp = Some (table ! i)
        \<and> info_current (getRankInfo table xp) = Some (table ! i)
        \<and> minXP (table ! i) \<le> xp
        \<and> (\<forall>j. i < j \<and> j < length table \<longrightarrow> xp < minXP (table ! j))" by blast
  have zero: "k = 0" if "k < length table" "minXP (table ! k) \<le> 0" for k
  proof (rule ccontr)
    assume "k \<noteq> 0"
    then have "0 < k" by simp
    from v(3) [OF this that(1)] v(2) that(2) show False by simp
  qed
  from getRank_index [OF v(1) first(2)] zero have g0: "getRank table 0 = Some (table ! 0)"
    by metis
  from getRankInfo_index [OF v(1) first(2)] zero
  have "info_current (getRankInfo table 0) = Some (table ! 0)" by metis
  with general g0 show ?thesis by blast
qed

theorem getRank_highest_reached_witness:
  "validTable RANKS \<and> (0::int) \<le> 300
   \<and> getRank RANKS 300 = Some (RANKS ! 2)
   \<and> info_current (getRankInfo RANKS 300) = Some (RANKS ! 2)
   \<and> getRank RANKS 0 = Some (RANKS ! 0)"
proof -
  have g: "getRank RANKS 300 = Some (RANKS ! 2)"
    by (simp add: getRank_def RANKS_def eval_nat_numeral)
  from getRank_highest_reached [OF validTable_RANKS, of 300] obtain i where
    i: "getRank RANKS 300 = Some (RANKS ! i)"
       "info_current (getRankInfo RANKS 300) = Some (RANKS ! i)"
    and z: "getRank RANKS 0 = Some (RANKS ! 0)" by auto
  from i g show ?thesis using validTable_RANKS z by simp
qed

lemma findIndexFrom_distinct:
  "i < length xs \<Longrightarrow> distinct (map f xs) \<Longrightarrow>
   findIndexFrom (\<lambda>r. f r = f (xs ! i)) xs k = k + int i"
proof (induction xs arbitrary: i k)
  case Nil
  then show ?case by simp
next
  case (Cons x xs)
  show ?case
  proof (cases i)
    case 0
    then show ?thesis by simp
  next
    case (Suc i')
    with Cons.prems have i': "i' < length xs" and d: "distinct (map f xs)"
      and "f x \<notin> f ` set xs" by simp_all
    with i' have "f x \<noteq> f (xs ! i')" by (metis imageI nth_mem)
    with Cons.IH [OF i' d, of "k + 1"] Suc show ?thesis by simp
  qed
qed

lemma findIndex_distinct:
  "i < length xs \<Longrightarrow> distinct (map f xs) \<Longrightarrow> findIndex (\<lambda>r. f r = f (xs ! i)) xs = int i"
  by (simp add: findIndex_def findIndexFrom_distinct)

lemma getNextRank_last:
  assumes "getRank table xp = Some (table ! i)" "i < length table"
    "distinct (map rank_id table)" "i = length table - 1"
  shows "getNextRank table xp = Inr None"
  using assms findIndex_distinct [OF assms(2,3)]
  by (simp add: getNextRank_def Let_def)

lemma getNextRank_next:
  assumes "getRank table xp = Some (table ! i)" "i < length table"
    "distinct (map rank_id table)" "i \<noteq> length table - 1"
    "minXP (table ! i) < minXP (table ! (i + 1))"
  shows "getNextRank table xp =
     Inr (Some \<lparr>next_rank = table ! (i + 1),
                xpRequired = minXP (table ! (i + 1)) - xp,
                progress = Some (roundPercent (xp - minXP (table ! i))
                                   (minXP (table ! (i + 1)) - minXP (table ! i)))\<rparr>)"
proof -
  from assms(2,4) have n: "i + 1 < length table" by simp
  then have "js_index table (int i + 1) = Some (table ! (i + 1))"
    by (simp add: js_index_def nat_add_distrib)
  moreover from n have "int i \<noteq> int (length table) - 1" by simp
  ultimately show ?thesis
    using assms(1,5) findIndex_distinct [OF assms(2,3)]
    by (simp add: getNextRank_def Let_def)
qed

lemma distinct_RANKS: "distinct (map rank_id RANKS)"
  by (simp add: RANKS_def)

lemma bounded_RANKS: "\<forall>r\<in>set RANKS. minXP r < 2 ^ 40"
  by (simp add: RANKS_def)

lemma getRank_RANKS_129: "getRank RANKS 129 = Some (RANKS ! 1)"
  by (simp add: getRank_def RANKS_def eval_nat_numeral)

lemma getRank_RANKS_4500: "getRank RANKS 4500 = Some (RANKS ! 8)"
  by (simp add: getRank_def RANKS_def eval_nat_numeral)

text \<open>
  At 129 XP the current rank is Bronze (100) and the next is Silver (300). The quotient
  \<open>29 / 200\<close> rounds to a double just below 0.145, its product with 100 rounds to
  14.499999999999998, and \<open>Math.round\<close> gives 14, where \<open>100 * 29 / 200 = 14.5\<close>
  rounds to 15.
\<close>

theorem getNextRank_tie_rounds_down:
  "getRank RANKS 129 = Some (RANKS ! 1)
   \<and> getNextRank RANKS 129 =
       Inr (Some \<lparr>next_rank = RANKS ! 2, xpRequired = 171, progress = Some 14\<rparr>)
   \<and> jsround (100 * (129 - 100) / (300 - 100)) = 15"
proof -
  have m: "minXP (RANKS ! 1) = 100" "minXP (RANKS ! 2) = 300"
    by (simp_all add: RANKS_def)
  have "getNextRank RANKS 129 =
      Inr (Some \<lparr>next_rank = RANKS ! (1 + 1),
                 xpRequired = minXP (RANKS ! (1 + 1)) - 129,
                 progress = Some (roundPercent (129 - minXP (RANKS ! 1))
                                    (minXP (RANKS ! (1 + 1)) - minXP (RANKS ! 1)))\<rparr>)"
    by (rule getNextRank_next [OF getRank_RANKS_129 _ distinct_RANKS])
      (simp_all add: RANKS_def)
  then have "getNextRank RANKS 129 =
      Inr (Some \<lparr>next_rank = RANKS ! 2, xpRequired = 300 - 129,
                 progress = Some (roundPercent (129 - 100) (300 - 100))\<rparr>)"
    by (simp only: one_add_one m)
  then have "getNextRank RANKS 129 =
      Inr (Some \<lparr>next_rank = RANKS ! 2, xpRequired = 171, progress = Some 14\<rparr>)"
    by (simp add: roundPercent_29_200)
  moreover have "jsround (100 * (129 - 100) / (300 - 100)) = 15"
    by (simp add: jsround_def)
  ultimately show ?thesis using getRank_RANKS_129 by simp
qed

text \<open>
  C7. On a valid table with distinct ids and thresholds below \<open>2 ^ 40\<close>, and for
  \<open>xp \<ge> 0\<close>: \<open>getNextRank\<close> returns \<open>null\<close> exactly when the current rank is the last
  entry; otherwise it returns the entry after the current rank, \<open>xpRequired\<close> the next
  threshold minus \<open>xp\<close>, and \<open>progress\<close> the value of
  \<open>Math.round(((xp - minXP) / (nextMinXP - minXP)) * 100)\<close> in double arithmetic. That value is
  \<open>100 * (xp - minXP) / (nextMinXP - minXP)\<close> rounded half up, unless this percentage lies
  half-way between two integers, where it is that or one less.
\<close>

theorem getNextRank_correct:
  assumes "validTable table" "distinct (map rank_id table)" "0 \<le> xp"
    and "\<forall>r\<in>set table. minXP r < 2 ^ 40"
  shows "\<exists>i<length table. getRank table xp = Some (table ! i) \<and>
     (if i = length table - 1 then getNextRank table xp = Inr None
      else \<exists>p. getNextRank table xp =
                 Inr (Some \<lparr>next_rank = table ! (i + 1),
                            xpRequired = minXP (table ! (i + 1)) - xp,
                            progress = Some p\<rparr>)
             \<and> p = roundPercent (xp - minXP (table ! i))
                      (minXP (table ! (i + 1)) - minXP (table ! i))
             \<and> (if percentTie (xp - minXP (table ! i))
                      (minXP (table ! (i + 1)) - minXP (table ! i))
                 then p = roundPercentExact (xp - minXP (table ! i))
                            (minXP (table ! (i + 1)) - minXP (table ! i))
                    \<or> p = roundPercentExact (xp - minXP (table ! i))
                            (minXP (table ! (i + 1)) - minXP (table ! i)) - 1
                 else p = roundPercentExact (xp - minXP (table ! i))
                            (minXP (table ! (i + 1)) - minXP (table ! i))))"
proof -
  note v = validTable_nth [OF assms(1)]
  have "minXP (table ! 0) \<le> xp" using v(2) assms(3) by simp
  from getRank_index [OF v(1) this] obtain i where i: "i < length table"
    "getRank table xp = Some (table ! i)" "minXP (table ! i) \<le> xp"
    "\<forall>j. i < j \<and> j < length table \<longrightarrow> xp < minXP (table ! j)" by blast
  show ?thesis
  proof (cases "i = length table - 1")
    case True
    from getNextRank_last [OF i(2,1) assms(2) True] i(1,2) True show ?thesis
      by (intro exI [of _ i]) simp
  next
    case False
    with i(1) have n: "i + 1 < length table" by simp
    define a where "a = xp - minXP (table ! i)"
    define b where "b = minXP (table ! (i + 1)) - minXP (table ! i)"
    have lt: "minXP (table ! i) < minXP (table ! (i + 1))" using v(3) [of i "i + 1"] n by simp
    have "0 \<le> minXP (table ! i)"
      using v(3) [of 0 i] v(2) i(1) by (cases "i = 0") auto
    moreover have "minXP (table ! (i + 1)) < 2 ^ 40" using assms(4) n by simp
    ultimately have b: "0 < b" "b < 2 ^ 40" using lt by (simp_all add: b_def)
    have a: "0 \<le> a" "a \<le> b" using i(3,4) n by (auto simp: a_def b_def)
    have tie: "percentTie a b \<Longrightarrow>
        roundPercent a b = roundPercentExact a b \<or> roundPercent a b = roundPercentExact a b - 1"
      using a b(1) by (rule roundPercent_tie)
    have no_tie: "\<not> percentTie a b \<Longrightarrow> roundPercent a b = roundPercentExact a b"
      using a b by (rule roundPercent_no_tie)
    from getNextRank_next [OF i(2,1) assms(2) False lt] tie no_tie i(1,2) False
    show ?thesis
      by (intro exI [of _ i]) (simp add: a_def b_def)
  qed
qed

theorem getNextRank_correct_witness:
  "validTable RANKS \<and> distinct (map rank_id RANKS) \<and> (0::int) \<le> 150
   \<and> getRank RANKS 150 = Some (RANKS ! 1)
   \<and> getNextRank RANKS 150 =
       Inr (Some \<lparr>next_rank = RANKS ! 2, xpRequired = 150, progress = Some 25\<rparr>)"
proof -
  have g: "getRank RANKS 150 = Some (RANKS ! 1)"
    by (simp add: getRank_def RANKS_def eval_nat_numeral)
  have m: "minXP (RANKS ! 1) = 100" "minXP (RANKS ! 2) = 300" "length RANKS = 9"
    by (simp_all add: RANKS_def)
  have nt: "\<not> percentTie 50 200" by (simp add: percentTie_def)
  have ex: "roundPercentExact 50 200 = 25" by (simp add: roundPercentExact_div)
  have d: "distinct RANKS" using distinct_RANKS by (simp add: distinct_map)
  from getNextRank_correct [OF validTable_RANKS distinct_RANKS _ bounded_RANKS, of 150]
  obtain i where i: "i < length RANKS" "getRank RANKS 150 = Some (RANKS ! i)"
    and rest: "if i = length RANKS - 1 then getNextRank RANKS 150 = Inr None
      else \<exists>p. getNextRank RANKS 150 =
                 Inr (Some \<lparr>next_rank = RANKS ! (i + 1),
                            xpRequired = minXP (RANKS ! (i + 1)) - 150,
                            progress = Some p\<rparr>)
             \<and> p = roundPercent (150 - minXP (RANKS ! i))
                      (minXP (RANKS ! (i + 1)) - minXP (RANKS ! i))
             \<and> (if percentTie (150 - minXP (RANKS ! i))
                      (minXP (RANKS ! (i + 1)) - minXP (RANKS ! i))
                 then p = roundPercentExact (150 - minXP (RANKS ! i))
                            (minXP (RANKS ! (i + 1)) - minXP (RANKS ! i))
                    \<or> p = roundPercentExact (150 - minXP (RANKS ! i))
                            (minXP (RANKS ! (i + 1)) - minXP (RANKS ! i)) - 1
                 else p = roundPercentExact (150 - minXP (RANKS ! i))
                            (minXP (RANKS ! (i + 1)) - minXP (RANKS ! i)))"
    by force
  from i g have "RANKS ! i = RANKS ! 1" by simp
  with d i(1) m(3) have i1: "i = 1" by (simp add: nth_eq_iff_index_eq)
  note r1 = rest [unfolded i1 one_add_one m]
  from r1 nt ex have "getNextRank RANKS 150 =
       Inr (Some \<lparr>next_rank = RANKS ! 2, xpRequired = 150, progress = Some 25\<rparr>)"
    by simp
  with g show ?thesis
    using validTable_RANKS distinct_RANKS by simp
qed

section \<open>Properties of the level calculator\<close>

lemma floor_sqrt_bounds:
  assumes "0 \<le> x" and k: "k = \<lfloor>sqrt x\<rfloor>"
  shows "0 \<le> k" "(of_int k)\<^sup>2 \<le> x" "x < (of_int k + 1)\<^sup>2"
proof -
  have s: "0 \<le> sqrt x" using assms(1) by simp
  then show k0: "0 \<le> k" unfolding k by simp
  have a: "of_int k \<le> sqrt x" "sqrt x < of_int k + 1" unfolding k by linarith+
  from a(1) k0 have "(of_int k)\<^sup>2 \<le> (sqrt x)\<^sup>2" by (intro power_mono) simp_all
  then show "(of_int k)\<^sup>2 \<le> x" using assms(1) by simp
  from a(2) s have "(sqrt x)\<^sup>2 < (of_int k + 1)\<^sup>2" by (intro power_strict_mono) simp_all
  then show "x < (of_int k + 1)\<^sup>2" using assms(1) by simp
qed

lemma floor_sqrt_eqI:
  assumes "0 \<le> k" "(of_int k)\<^sup>2 \<le> x" "x < (of_int k + 1)\<^sup>2"
  shows "\<lfloor>sqrt x\<rfloor> = k"
proof -
  have "of_int k \<le> sqrt x" using assms(2) by (rule real_le_rsqrt)
  moreover have "sqrt x < of_int k + 1"
    using assms(1,3) by (intro real_less_lsqrt) simp_all
  ultimately show ?thesis by linarith
qed

lemma levelSpec_eqI:
  assumes "0 \<le> k" "50 * k\<^sup>2 \<le> xp" "xp < 50 * (k + 1)\<^sup>2"
  shows "levelSpec xp = k + 1"
proof -
  have "real_of_int (50 * k\<^sup>2) \<le> of_int xp" using assms(2) by (simp only: of_int_le_iff)
  then have a: "(of_int k)\<^sup>2 \<le> real_of_int xp / 50" by simp
  have "real_of_int xp < of_int (50 * (k + 1)\<^sup>2)" using assms(3) by (simp only: of_int_less_iff)
  then have b: "real_of_int xp / 50 < (of_int k + 1)\<^sup>2" by simp
  from floor_sqrt_eqI [OF assms(1) a b] show ?thesis by (simp add: levelSpec_def)
qed

lemma floor_fsqrt_fdiv:
  assumes "0 \<le> xp" "xp < 2 ^ 31"
  shows "\<lfloor>fsqrt (fdiv (of_int xp) 50)\<rfloor> = \<lfloor>sqrt (of_int xp / 50)\<rfloor>"
proof -
  define x where "x = real_of_int xp / 50"
  define k where "k = \<lfloor>sqrt x\<rfloor>"
  define q where "q = fl x"
  have x0: "0 \<le> x" using assms(1) by (simp add: x_def)
  note kb = floor_sqrt_bounds [OF x0 k_def]
  have "x < 2 ^ 31" using assms(2) real_less_pow2 [of xp 31] by (simp add: x_def)
  with kb(2) have "(real_of_int k)\<^sup>2 < (2 ^ 16)\<^sup>2" by simp
  then have "real_of_int k < 2 ^ 16"
    by (rule power2_less_imp_less) simp
  then have k16: "k < 2 ^ 16"
    using of_int_less_iff [of k "2 ^ 16", where ?'a = real] by simp
  have q0: "0 \<le> q" unfolding q_def using x0 by (rule fl_nonneg)
  \<comment> \<open>lower bound\<close>
  have "k\<^sup>2 < 2 ^ 53"
  proof -
    have "k\<^sup>2 \<le> (2 ^ 16)\<^sup>2" using kb(1) k16 by (intro power_mono) simp_all
    then show ?thesis by simp
  qed
  then have "fl (of_int (k\<^sup>2)) = of_int (k\<^sup>2)" by (intro fl_int) simp_all
  moreover have "fl (of_int (k\<^sup>2)) \<le> q"
    unfolding q_def using kb(2) by (intro fl_mono) simp_all
  ultimately have "(of_int k)\<^sup>2 \<le> q" by simp
  then have "of_int k \<le> sqrt q" by (rule real_le_rsqrt)
  then have "fl (of_int k) \<le> fl (sqrt q)" using kb(1) by (intro fl_mono) simp_all
  moreover have "fl (of_int k) = of_int k" using kb(1) k16 by (intro fl_int) simp_all
  ultimately have lower: "of_int k \<le> fl (sqrt q)" by simp
  \<comment> \<open>upper bound\<close>
  define K where "K = k + 1"
  have K: "1 \<le> K" "K \<le> 2 ^ 16" using kb(1) k16 by (simp_all add: K_def)
  define A where "A = real_of_int (64 * K\<^sup>2 - 1) * 2 powi (- 6)"
  define B where "B = real_of_int (K * 2 ^ 30 - 1) * 2 powi (- 30)"
  have A: "A = (of_int K)\<^sup>2 - 1 / 64" by (simp add: A_def power_int_minus field_simps)
  have B: "B = of_int K - 1 / 2 ^ 30" by (simp add: B_def power_int_minus field_simps)
  have K2: "K\<^sup>2 \<le> (2 ^ 16)\<^sup>2" using K by (intro power_mono) simp_all
  have "xp < 50 * K\<^sup>2"
  proof -
    have "real_of_int xp < 50 * (of_int K)\<^sup>2"
      using kb(3) by (simp add: x_def K_def)
    then have "real_of_int xp < of_int (50 * K\<^sup>2)" by simp
    then show ?thesis by (simp only: of_int_less_iff)
  qed
  then have "xp \<le> 50 * K\<^sup>2 - 1" by simp
  then have "real_of_int xp \<le> of_int (50 * K\<^sup>2 - 1)" by (simp only: of_int_le_iff)
  then have xA: "x \<le> A" by (simp add: x_def A)
  have "1\<^sup>2 \<le> K\<^sup>2" using K(1) by (intro power_mono) simp_all
  then have K1: "1 \<le> K\<^sup>2" by simp
  have "fl A = A"
    unfolding A_def using K1 K2 by (intro fl_repr) simp_all
  moreover have "q \<le> fl A" unfolding q_def using x0 xA by (rule fl_mono)
  ultimately have qA: "q \<le> A" by simp
  have B0: "0 \<le> B" using K(1) by (simp add: B)
  have "real_of_int K \<le> 2 ^ 16" using K(2) by (rule real_le_pow2)
  then have "A \<le> B\<^sup>2" by (simp add: A B power2_diff field_simps)
  with qA have "q \<le> B\<^sup>2" by simp
  with B0 have "sqrt q \<le> B" by (rule real_le_lsqrt)
  then have "fl (sqrt q) \<le> fl B" using q0 by (intro fl_mono) simp_all
  moreover have "fl B = B"
  proof -
    have "K * 2 ^ 30 \<le> 2 ^ 16 * 2 ^ 30" using K(2) by simp
    with K(1) show ?thesis unfolding B_def by (intro fl_repr) simp_all
  qed
  ultimately have "fl (sqrt q) \<le> B" by simp
  then have upper: "fl (sqrt q) < of_int k + 1" by (simp add: B K_def)
  from lower upper have "\<lfloor>fl (sqrt q)\<rfloor> = k" by linarith
  then show ?thesis by (simp add: fsqrt_def fdiv_def q_def x_def k_def)
qed

lemma level_floor_nonneg:
  assumes "0 \<le> xp"
  shows "0 \<le> \<lfloor>fsqrt (fdiv (of_int xp) 50)\<rfloor>"
proof -
  have "0 \<le> fl (real_of_int xp / 50)" using assms by (intro fl_nonneg) simp
  then have "0 \<le> fl (sqrt (fl (real_of_int xp / 50)))" by (intro fl_nonneg) simp
  then show ?thesis by (simp add: fsqrt_def fdiv_def)
qed

lemma level_floor_mono:
  assumes "xp1 \<le> xp2"
  shows "\<lfloor>fsqrt (fdiv (of_int xp1) 50)\<rfloor> \<le> \<lfloor>fsqrt (fdiv (of_int xp2) 50)\<rfloor>"
proof -
  have "real_of_int xp1 / 50 \<le> of_int xp2 / 50" using assms by simp
  then have "fl (real_of_int xp1 / 50) \<le> fl (of_int xp2 / 50)" by (rule fl_mono_all)
  then have "sqrt (fl (real_of_int xp1 / 50)) \<le> sqrt (fl (of_int xp2 / 50))" by simp
  then have "fl (sqrt (fl (real_of_int xp1 / 50))) \<le> fl (sqrt (fl (of_int xp2 / 50)))"
    by (rule fl_mono_all)
  then show ?thesis by (simp add: fsqrt_def fdiv_def floor_mono)
qed

lemma calculateLevel_exact:
  "0 \<le> xp \<Longrightarrow> xp < 2 ^ 31 \<Longrightarrow> calculateLevel xp = Some (levelSpec xp)"
  by (simp add: calculateLevel_def levelSpec_def floor_fsqrt_fdiv)

lemma levelSpec_bounds:
  assumes "0 \<le> xp"
  shows "\<exists>k\<ge>0. levelSpec xp = k + 1 \<and> 50 * k\<^sup>2 \<le> xp \<and> xp < 50 * (k + 1)\<^sup>2"
proof -
  define k where "k = \<lfloor>sqrt (real_of_int xp / 50)\<rfloor>"
  have "0 \<le> real_of_int xp / 50" using assms by simp
  note kb = floor_sqrt_bounds [OF this k_def]
  from kb(2) have "real_of_int (50 * k\<^sup>2) \<le> of_int xp" by simp
  then have a: "50 * k\<^sup>2 \<le> xp" by (simp only: of_int_le_iff)
  from kb(3) have "real_of_int xp < of_int (50 * (k + 1)\<^sup>2)" by simp
  then have b: "xp < 50 * (k + 1)\<^sup>2" by (simp only: of_int_less_iff)
  from kb(1) a b show ?thesis by (intro exI [of _ k]) (simp add: levelSpec_def k_def)
qed

lemma calculateLevel_ge_1:
  assumes "0 \<le> xp"
  shows "\<exists>l. calculateLevel xp = Some l \<and> 1 \<le> l"
  using assms level_floor_nonneg [OF assms] by (simp add: calculateLevel_def)

text \<open>
  C6. For \<open>xp \<ge> 0\<close> the level is a number and at least 1, and it does not decrease when
  \<open>xp\<close> grows. Up to the largest database integer the double computation is exact: the level
  is \<open>floor(sqrt(xp / 50)) + 1\<close>.
\<close>

theorem calculateLevel_at_least_1_and_monotone:
  assumes "0 \<le> xp1" "xp1 \<le> xp2"
  shows "\<exists>l1 l2. calculateLevel xp1 = Some l1 \<and> calculateLevel xp2 = Some l2
           \<and> 1 \<le> l1 \<and> l1 \<le> l2
           \<and> (xp2 < 2 ^ 31 \<longrightarrow> l1 = levelSpec xp1 \<and> l2 = levelSpec xp2)"
proof -
  from assms have x2: "0 \<le> xp2" by simp
  have "calculateLevel xp1 = Some (\<lfloor>fsqrt (fdiv (of_int xp1) 50)\<rfloor> + 1)"
       "calculateLevel xp2 = Some (\<lfloor>fsqrt (fdiv (of_int xp2) 50)\<rfloor> + 1)"
    using assms(1) x2 by (simp_all add: calculateLevel_def)
  moreover have "xp2 < 2 ^ 31 \<longrightarrow>
      \<lfloor>fsqrt (fdiv (of_int xp1) 50)\<rfloor> + 1 = levelSpec xp1
      \<and> \<lfloor>fsqrt (fdiv (of_int xp2) 50)\<rfloor> + 1 = levelSpec xp2"
    using assms x2 by (simp add: levelSpec_def floor_fsqrt_fdiv)
  ultimately show ?thesis
    using level_floor_nonneg [OF assms(1)] level_floor_mono [OF assms(2)] by simp
qed

theorem calculateLevel_at_least_1_and_monotone_witness:
  "(0::int) \<le> 49 \<and> (49::int) \<le> 50
   \<and> calculateLevel 49 = Some 1 \<and> calculateLevel 50 = Some 2"
proof -
  have s: "levelSpec 49 = 0 + 1" "levelSpec 50 = 1 + 1"
    by (rule levelSpec_eqI; simp)+
  from calculateLevel_at_least_1_and_monotone [of 49 50] s show ?thesis by auto
qed

text \<open>
  C10. The three \<open>calculateLevel\<close> functions and the level that \<open>addXP\<close> stores for the
  new XP are the same function of \<open>xp\<close> (\<open>NaN\<close> for negative \<open>xp\<close> in all four), and for
  \<open>0 \<le> xp < 2 ^ 31\<close> its value is \<open>floor(sqrt(xp / 50)) + 1\<close>.
\<close>

theorem level_copies_agree:
  "calculateLevel_habits xp = calculateLevel xp
   \<and> calculateLevel_features xp = calculateLevel xp
   \<and> map_option store_level (addXP (xp - store_xp u) (Some u)) = Some (calculateLevel xp)
   \<and> (0 \<le> xp \<and> xp < 2 ^ 31 \<longrightarrow> calculateLevel xp = Some (levelSpec xp))"
proof -
  have "calculateLevel_habits xp = calculateLevel xp"
    by (simp add: calculateLevel_habits_def calculateLevel_def)
  moreover have "calculateLevel_features xp = calculateLevel xp"
    by (simp add: calculateLevel_features_def calculateLevel_def)
  moreover have "map_option store_level (addXP (xp - store_xp u) (Some u))
      = Some (calculateLevel xp)"
    by (simp add: addXP_def calculateLevel_def)
  moreover have "0 \<le> xp \<and> xp < 2 ^ 31 \<longrightarrow> calculateLevel xp = Some (levelSpec xp)"
    using calculateLevel_exact [of xp] by blast
  ultimately show ?thesis by blast
qed

theorem level_copies_agree_witness:
  "(0::int) \<le> 250 \<and> (250::int) < 2 ^ 31
   \<and> calculateLevel 250 = Some 3
   \<and> calculateLevel_habits 250 = Some 3
   \<and> calculateLevel_features 250 = Some 3
   \<and> map_option store_level
        (addXP 50 (Some \<lparr>store_xp = 200, store_level = Some 3, store_currentStreak = 0,
                         store_longestStreak = 0\<rparr>)) = Some (Some 3)"
proof -
  have s: "levelSpec 250 = 2 + 1" by (rule levelSpec_eqI) simp_all
  from level_copies_agree [of 250 "\<lparr>store_xp = 200, store_level = Some 3,
      store_currentStreak = 0, store_longestStreak = 0\<rparr>"] s
  show ?thesis by auto
qed

lemma calculateLevelProgress_Some:
  "calculateLevel xp = Some l \<Longrightarrow>
   calculateLevelProgress xp =
     Some \<lparr>lp_level = l, currentLevelXP = 50 * (l - 1)\<^sup>2, nextLevelXP = 50 * l\<^sup>2,
           xpInLevel = xp - 50 * (l - 1)\<^sup>2,
           xpForNextLevel = 50 * l\<^sup>2 - 50 * (l - 1)\<^sup>2,
           progressPercent =
             min 100 (roundPercent (xp - 50 * (l - 1)\<^sup>2) (50 * l\<^sup>2 - 50 * (l - 1)\<^sup>2))\<rparr>"
  by (simp add: calculateLevelProgress_def Let_def)

lemma level_width_pos: "1 \<le> l \<Longrightarrow> 0 < 50 * l\<^sup>2 - 50 * (l - 1)\<^sup>2" for l :: int
  by (simp add: power2_eq_square algebra_simps)

text \<open>
  Level 2 spans the 150 XP values 50..199, more than the 101 values of a percentage:
  51 XP and 52 XP are both in level 2 and both at 1 percent.
\<close>

theorem progressPercent_not_strict:
  "calculateLevel 51 = Some 2 \<and> calculateLevel 52 = Some 2
   \<and> map_option progressPercent (calculateLevelProgress 51) = Some 1
   \<and> map_option progressPercent (calculateLevelProgress 52) = Some 1"
proof -
  have s: "levelSpec 51 = 1 + 1" "levelSpec 52 = 1 + 1"
    by (rule levelSpec_eqI; simp)+
  have l: "calculateLevel 51 = Some 2" "calculateLevel 52 = Some 2"
    using s by (simp_all add: calculateLevel_exact)
  have "\<not> percentTie 1 150" "\<not> percentTie 2 150" by (simp_all add: percentTie_def)
  then have "roundPercent 1 150 = roundPercentExact 1 150"
       "roundPercent 2 150 = roundPercentExact 2 150"
    by (simp_all add: roundPercent_no_tie)
  then have p: "roundPercent 1 150 = 1" "roundPercent 2 150 = 1"
    by (simp_all add: roundPercentExact_div)
  show ?thesis
    by (simp add: l calculateLevelProgress_Some [OF l(1)] calculateLevelProgress_Some [OF l(2)] p)
qed

text \<open>
  C8. Within one level \<open>progressPercent\<close> does not decrease when \<open>xp\<close> grows (it is not
  strictly increasing, since it is rounded to an integer), and it is 0 at the first \<open>xp\<close> of
  every new level, that is whenever \<open>xp - 1\<close> and \<open>xp\<close> have different levels.
\<close>

theorem progressPercent_monotone_and_reset:
  "(0 \<le> xp1 \<and> xp1 \<le> xp2 \<and> calculateLevel xp1 = calculateLevel xp2 \<longrightarrow>
      (\<exists>p1 p2. calculateLevelProgress xp1 = Some p1 \<and> calculateLevelProgress xp2 = Some p2
          \<and> progressPercent p1 \<le> progressPercent p2))
   \<and> (0 < xp \<and> xp < 2 ^ 31 \<and> calculateLevel (xp - 1) \<noteq> calculateLevel xp \<longrightarrow>
        (\<exists>p. calculateLevelProgress xp = Some p \<and> progressPercent p = 0))"
proof (intro conjI impI)
  assume a: "0 \<le> xp1 \<and> xp1 \<le> xp2 \<and> calculateLevel xp1 = calculateLevel xp2"
  from calculateLevel_ge_1 [of xp1] a
  obtain l where l: "calculateLevel xp1 = Some l" "calculateLevel xp2 = Some l" "1 \<le> l"
    by auto
  have "roundPercent (xp1 - 50 * (l - 1)\<^sup>2) (50 * l\<^sup>2 - 50 * (l - 1)\<^sup>2)
        \<le> roundPercent (xp2 - 50 * (l - 1)\<^sup>2) (50 * l\<^sup>2 - 50 * (l - 1)\<^sup>2)"
    using a level_width_pos [OF l(3)] by (intro roundPercent_mono_all) simp_all
  then show "\<exists>p1 p2. calculateLevelProgress xp1 = Some p1
      \<and> calculateLevelProgress xp2 = Some p2 \<and> progressPercent p1 \<le> progressPercent p2"
    by (simp add: calculateLevelProgress_Some [OF l(1)] calculateLevelProgress_Some [OF l(2)])
next
  assume a: "0 < xp \<and> xp < 2 ^ 31 \<and> calculateLevel (xp - 1) \<noteq> calculateLevel xp"
  then have x: "0 \<le> xp" "0 \<le> xp - 1" "xp - 1 < 2 ^ 31" by simp_all
  from levelSpec_bounds [OF x(1)] obtain k where k: "0 \<le> k" "levelSpec xp = k + 1"
    "50 * k\<^sup>2 \<le> xp" "xp < 50 * (k + 1)\<^sup>2" by blast
  have "xp = 50 * k\<^sup>2"
  proof (rule ccontr)
    assume "xp \<noteq> 50 * k\<^sup>2"
    with k(3) have "50 * k\<^sup>2 \<le> xp - 1" by simp
    moreover from k(4) have "xp - 1 < 50 * (k + 1)\<^sup>2" by simp
    ultimately have "levelSpec (xp - 1) = k + 1" using k(1) by (intro levelSpec_eqI)
    with k(2) calculateLevel_exact [OF x(2,3)] calculateLevel_exact [OF x(1)] a
    show False by simp
  qed
  then have z: "xp - 50 * (k + 1 - 1)\<^sup>2 = 0" by simp
  have l: "calculateLevel xp = Some (k + 1)"
    using a x(1) k(2) by (simp add: calculateLevel_exact)
  show "\<exists>p. calculateLevelProgress xp = Some p \<and> progressPercent p = 0"
    unfolding calculateLevelProgress_Some [OF l] z by (simp add: roundPercent_zero)
qed

theorem progressPercent_monotone_and_reset_witness:
  "((0::int) \<le> 51 \<and> (51::int) \<le> 199 \<and> calculateLevel 51 = calculateLevel 199)
   \<and> ((0::int) < 200 \<and> (200::int) < 2 ^ 31 \<and> calculateLevel (200 - 1) \<noteq> calculateLevel 200)
   \<and> (\<exists>p1 p2. calculateLevelProgress 51 = Some p1 \<and> calculateLevelProgress 199 = Some p2
          \<and> progressPercent p1 \<le> progressPercent p2)
   \<and> (\<exists>p. calculateLevelProgress 200 = Some p \<and> progressPercent p = 0)"
proof -
  have s: "levelSpec 51 = 1 + 1" "levelSpec 199 = 1 + 1" "levelSpec 200 = 2 + 1"
    by (rule levelSpec_eqI; simp)+
  have l: "calculateLevel 51 = Some 2" "calculateLevel 199 = Some 2"
    "calculateLevel 200 = Some 3"
    using s by (simp_all add: calculateLevel_exact)
  from progressPercent_monotone_and_reset [of 51 199 200] l show ?thesis by simp
qed

end
